theory Spec2Isabelle
  imports Complex_Main "HOL-Library.AList"
begin

section \<open>JavaScript Map as an insertion-ordered association list\<close>

text \<open>
  A JavaScript \<^verbatim>\<open>Map\<close> iterates its keys in insertion order, \<^verbatim>\<open>set\<close> on a key
  that is present replaces the value and keeps the key's position, \<^verbatim>\<open>set\<close> on a new
  key appends it, and \<^verbatim>\<open>delete\<close> removes the key's entry. An association list with
  \<open>AList.update\<close> and \<open>AList.delete\<close> behaves the same way.
\<close>

type_synonym ('k, 'v) js_map = "('k \<times> 'v) list"

definition map_has :: "'k \<Rightarrow> ('k, 'v) js_map \<Rightarrow> bool" where
  "map_has k m = (k \<in> set (map fst m))"

definition map_get :: "'k \<Rightarrow> ('k, 'v) js_map \<Rightarrow> 'v option" where
  "map_get k m = map_of m k"

definition map_set :: "'k \<Rightarrow> 'v \<Rightarrow> ('k, 'v) js_map \<Rightarrow> ('k, 'v) js_map" where
  "map_set k v m = AList.update k v m"

definition map_size :: "('k, 'v) js_map \<Rightarrow> nat" where
  "map_size m = length m"

text \<open>\<^verbatim>\<open>m.keys().next().value\<close>: the oldest key, or \<^verbatim>\<open>undefined\<close> (None) on an empty map.\<close>

definition map_first_key :: "('k, 'v) js_map \<Rightarrow> 'k option" where
  "map_first_key m = (case m of [] \<Rightarrow> None | (k, _) # _ \<Rightarrow> Some k)"

text \<open>\<^verbatim>\<open>m.delete(key)\<close>, where deleting \<^verbatim>\<open>undefined\<close> finds no entry.\<close>

definition map_delete :: "'k option \<Rightarrow> ('k, 'v) js_map \<Rightarrow> ('k, 'v) js_map" where
  "map_delete ko m = (case ko of None \<Rightarrow> m | Some k \<Rightarrow> AList.delete k m)"

section \<open>The bounded caches\<close>

text \<open>
  Both caches of the extension use the same three lines after a \<^verbatim>\<open>set\<close>:
  \<^verbatim>\<open>
    cache.set(key, value);
    if (cache.size > CAP) {
        const firstKey = cache.keys().next().value;
        cache.delete(firstKey);
    }
  \<close>
  with \<^verbatim>\<open>CAP = 50\<close> for \<^verbatim>\<open>tweetCache\<close> (getTweetTextFast) and \<^verbatim>\<open>CAP = 100\<close> for
  \<^verbatim>\<open>apiCache\<close> (processApiRequest).
\<close>

definition cache_insert :: "nat \<Rightarrow> 'k \<Rightarrow> 'v \<Rightarrow> ('k, 'v) js_map \<Rightarrow> ('k, 'v) js_map" where
  "cache_insert cap k v m =
     (let m' = map_set k v m
      in if map_size m' > cap then map_delete (map_first_key m') m' else m')"

text \<open>
  ASCII lower-casing, standing for \<^verbatim>\<open>String.prototype.toLowerCase\<close> on ASCII text. Prompts
  are taken to be ASCII: there one list element is one UTF-16 code unit, so that \<open>take 50\<close>
  is \<^verbatim>\<open>substring(0, 50)\<close>, and only the letters A to Z change. For a prompt with other
  letters the browser computes another key than \<open>cacheKey\<close>; what is proved about the cache
  holds for whatever key is inserted.
\<close>

definition toLowerCase_char :: "char \<Rightarrow> char" where
  "toLowerCase_char c =
     (let n = (of_char c :: nat) in if 65 \<le> n \<and> n \<le> 90 then char_of (n + 32) else c)"

definition toLowerCase :: "string \<Rightarrow> string" where
  "toLowerCase s = map toLowerCase_char s"

text \<open>\<^verbatim>\<open>data.prompt.toLowerCase().substring(0, 50)\<close>\<close>

definition cacheKey :: "string \<Rightarrow> string" where
  "cacheKey prompt = take 50 (toLowerCase prompt)"

text \<open>
  The caching step of processApiRequest (background script):
  \<^verbatim>\<open>
    const cacheKey = data.prompt.toLowerCase().substring(0, 50);
    apiCache.set(cacheKey, cleanResponse);
    if (apiCache.size > 100) { ... delete first key ... }
  \<close>
\<close>

definition apiCache_store :: "string \<Rightarrow> string \<Rightarrow> (string, string) js_map \<Rightarrow> (string, string) js_map" where
  "apiCache_store prompt cleanResponse apiCache = cache_insert 100 (cacheKey prompt) cleanResponse apiCache"

text \<open>The cache after a sequence of insertions into an empty cache.\<close>

definition cache_run :: "nat \<Rightarrow> ('k \<times> 'v) list \<Rightarrow> ('k, 'v) js_map" where
  "cache_run cap ops = foldl (\<lambda>m (k, v). cache_insert cap k v m) [] ops"

section \<open>Strings\<close>

text \<open>
  Strings are byte strings; the whitespace that \<^verbatim>\<open>String.prototype.trim\<close> removes is
  restricted to its ASCII part (tab, line feed, vertical tab, form feed, carriage return, space).
\<close>

definition is_space :: "char \<Rightarrow> bool" where
  "is_space c = (let n = (of_char c :: nat) in (9 \<le> n \<and> n \<le> 13) \<or> n = 32)"

definition trim :: "string \<Rightarrow> string" where
  "trim s = rev (dropWhile is_space (rev (dropWhile is_space s)))"

text \<open>\<^verbatim>\<open>s.includes(sub)\<close>\<close>

definition str_includes :: "string \<Rightarrow> string \<Rightarrow> bool" where
  "str_includes s sub = list_ex (\<lambda>k. take (length sub) (drop k s) = sub) [0..<Suc (length s)]"

section \<open>What the scripts observe of the page\<close>

text \<open>
  The page belongs to the site, not to the extension. Each call into the scripts is given a
  record of what the DOM answers while the call runs. Pixel values are integers here
  (the browser reports floating-point numbers).

  A \<open>tweet\<close> describes one \<^verbatim>\<open>article[data-testid="tweet"]\<close> element. \<open>tweetId\<close> is what
  \<^verbatim>\<open>getTweetId(tweet)\<close> returns for it: the element's \<^verbatim>\<open>dataset.tweetId\<close>, which the script
  generates the first time it sees the element and which stays with the element afterwards.
\<close>

record tweet =
  tweetId :: string
  rect_top :: int
  rect_bottom :: int
  rect_height :: int
  rect_width :: int
  like_button :: bool \<comment> \<open>\<^verbatim>\<open>querySelector('[data-testid="like"]')\<close> finds an element\<close>
  like_button_retry :: bool \<comment> \<open>the same query one second later (first script only)\<close>
  unlike_marker :: bool \<comment> \<open>\<^verbatim>\<open>querySelector('[data-testid="unlike"]')\<close> finds an element\<close>
  unlike_after_click :: bool \<comment> \<open>the same query at the verification after the click\<close>
  tweetText :: "string option" \<comment> \<open>\<^verbatim>\<open>textContent\<close> of \<^verbatim>\<open>[data-testid="tweetText"]\<close>, if present\<close>
  lang_span_text :: "string option" \<comment> \<open>\<^verbatim>\<open>textContent\<close> of \<^verbatim>\<open>[lang] span\<close> (first script only)\<close>
  css_text :: "string option" \<comment> \<open>\<^verbatim>\<open>textContent\<close> of the CSS-class selector (first script only)\<close>
  parent_text :: string \<comment> \<open>\<^verbatim>\<open>textContent\<close> of the parent of the tweetText element\<close>
  reply_button :: bool \<comment> \<open>\<^verbatim>\<open>querySelector('[data-testid="reply"]')\<close> finds an element\<close>
  centered_top :: int \<comment> \<open>rectangle after runAutomation's scrollIntoView (first script)\<close>
  centered_bottom :: int
  engage_top :: int \<comment> \<open>rectangle after engageWithTweet's scrollIntoView (first script)\<close>
  engage_bottom :: int

text \<open>Points of the optimized runAutomation's \<^verbatim>\<open>try\<close> block at which a DOM call may throw.\<close>

datatype throw_point = ThrowAtQuery | ThrowAtDisplay | ThrowAtScroll

record page =
  tweets :: "tweet list" \<comment> \<open>\<^verbatim>\<open>document.querySelectorAll('article[data-testid="tweet"]')\<close>\<close>
  innerHeight :: int \<comment> \<open>\<^verbatim>\<open>window.innerHeight\<close>\<close>
  scrollY :: int \<comment> \<open>\<^verbatim>\<open>window.scrollY\<close>\<close>
  scrollHeight :: int \<comment> \<open>the larger of the document element's and the body's \<^verbatim>\<open>scrollHeight\<close>\<close>
  random :: "nat \<Rightarrow> real" \<comment> \<open>the \<open>k\<close>-th draw of \<^verbatim>\<open>Math.random()\<close> for a comment gate\<close>
  date_now :: "nat \<Rightarrow> int" \<comment> \<open>the \<open>k\<close>-th reading of \<^verbatim>\<open>Date.now()\<close> during the call\<close>
  throw_at :: "throw_point option"
  active_element :: bool \<comment> \<open>\<^verbatim>\<open>document.activeElement\<close> is not null\<close>
  active_editable :: bool \<comment> \<open>it is content-editable or a \<^verbatim>\<open>TEXTAREA\<close>\<close>
  active_text :: string \<comment> \<open>its \<^verbatim>\<open>textContent\<close> after the direct insertion\<close>
  execCommand :: bool \<comment> \<open>\<^verbatim>\<open>document.execCommand\<close> is defined\<close>
  insert_throws :: bool \<comment> \<open>the insertion of the reply throws\<close>
  tweetButton :: bool \<comment> \<open>\<^verbatim>\<open>querySelector('[data-testid="tweetButton"]')\<close> finds an element\<close>
  tweetButtonInline :: bool
  selector_buttons :: "string list list"
    \<comment> \<open>first script: per selector of findReplyButton, the \<^verbatim>\<open>textContent\<close> of each match\<close>
  close_buttons :: nat \<comment> \<open>number of matches of the close-button selectors\<close>

section \<open>Effects on the page\<close>

datatype target =
    LikeButton string | ReplyButton string
  | TweetButton | TweetButtonInline | SelectorButton nat nat | CloseButton nat

text \<open>
  Every call the scripts make on the page or the browser is appended to the \<open>trace\<close> of the
  state, so that "no click was dispatched" is a statement about the trace. \<open>Engage\<close> marks
  a call of the engagement engine (engageWithTweetFast, engageWithTweet).
\<close>

datatype effect =
    Engage string
  | Focus target
  | MouseMove target
  | Click target
  | Delay nat
  | DelayBetween nat nat \<comment> \<open>\<^verbatim>\<open>delay(Math.random() * (hi - lo) + lo)\<close>\<close>
  | ScrollIntoView string
  | ScrollBy real
  | ScrollTo real
  | InsertText string \<comment> \<open>\<^verbatim>\<open>document.execCommand('insertText', false, text)\<close>\<close>
  | SetTextContent string
  | TypeKey char \<comment> \<open>the keydown, input and keyup events of one character\<close>
  | SendGroqRequest string
  | DispatchEscape
  | ConsoleError
  | ScheduleRun nat \<comment> \<open>\<^verbatim>\<open>setTimeout(() => runAutomation(), ms)\<close>\<close>
  | ScheduleReload nat \<comment> \<open>\<^verbatim>\<open>setTimeout(() => window.location.reload(), ms)\<close>\<close>

fun is_click :: "effect \<Rightarrow> bool" where
  "is_click (Click _) = True"
| "is_click _ = False"

section \<open>The scripts' global variables\<close>

record settings =
  groqApiKey :: string
  groqModel :: string
  enableLiking :: bool
  enableCommenting :: bool
  s_automationEnabled :: bool

text \<open>
  The globals that both versions of the content script declare. A timer handle is either
  \<^verbatim>\<open>null\<close> (None) or the id of a live interval; browsers hand out positive ids, so the
  scripts' truthiness tests on a handle are tests for non-null.
\<close>

record script_state =
  settings :: "settings option"
  isRunning :: bool
  lastActionTime :: int
  processedTweets :: "string set"
  automationEnabled :: bool
  automationInterval :: "unit option"
  totalTweets :: nat
  processedLikes :: nat
  processedComments :: nat
  currentTweetForComment :: "tweet option"
  trace :: "effect list"

record queued_action =
  tweet :: tweet
  q_tweetId :: string
  timestamp :: int

text \<open>The optimized content script adds the heartbeat handle, the text cache and the queue.\<close>

record fast_state = script_state +
  pageVisibilityInterval :: "unit option"
  tweetCache :: "(string, string) js_map"
  actionQueue :: "queued_action list"
  isProcessingQueue :: bool
  fastMode :: bool

definition emit :: "effect list \<Rightarrow> ('a script_state_scheme) \<Rightarrow> ('a script_state_scheme)" where
  "emit es s = s\<lparr>trace := trace s @ es\<rparr>"

text \<open>The values of the \<^verbatim>\<open>let\<close> declarations at the top of the optimized script.\<close>

definition initial_state :: fast_state where
  "initial_state =
     \<lparr>settings = None, isRunning = False, lastActionTime = 0, processedTweets = {},
      automationEnabled = False, automationInterval = None, totalTweets = 0,
      processedLikes = 0, processedComments = 0, currentTweetForComment = None, trace = [],
      pageVisibilityInterval = None, tweetCache = [], actionQueue = [],
      isProcessingQueue = False, fastMode = True\<rparr>"

section \<open>The optimized content script: engagement\<close>

text \<open>
  An \<^verbatim>\<open>async\<close> function is modelled in segments that run without interruption. The
  engagement of one tweet (engageWithTweetFast with the calls it awaits) is one segment: its
  waits are recorded as \<open>Delay\<close> effects.
\<close>

definition getTweetId :: "tweet \<Rightarrow> string" where
  "getTweetId t = tweetId t"

definition shouldCommentFast :: "real \<Rightarrow> bool" where
  "shouldCommentFast r = (r < 0.25)"

definition updateLastActionTime :: "page \<Rightarrow> ('a script_state_scheme) \<Rightarrow> ('a script_state_scheme)" where
  "updateLastActionTime pg s = s\<lparr>lastActionTime := date_now pg 0\<rparr>"

definition likePostFast :: "tweet \<Rightarrow> fast_state \<Rightarrow> bool \<times> fast_state" where
  "likePostFast t s =
     (if \<not> like_button t then (False, s)
      else if unlike_marker t then (True, s\<lparr>processedLikes := processedLikes s + 1\<rparr>)
      else
        let s1 = emit [Focus (LikeButton (tweetId t)),
                       Delay (if fastMode s then 100 else 500),
                       Click (LikeButton (tweetId t)),
                       Delay (if fastMode s then 300 else 1000)] s
        in if unlike_after_click t
           then (True, s1\<lparr>processedLikes := processedLikes s1 + 1\<rparr>)
           else (False, s1))"

definition getTweetTextFast :: "tweet \<Rightarrow> fast_state \<Rightarrow> string \<times> fast_state" where
  "getTweetTextFast t s =
     (let tid = getTweetId t
      in case map_get tid (tweetCache s) of
           Some cached \<Rightarrow> (cached, s)
         | None \<Rightarrow>
            (case tweetText t of
               Some content \<Rightarrow>
                 (let text = trim content
                  in (text, s\<lparr>tweetCache := cache_insert 50 tid text (tweetCache s)\<rparr>))
             | None \<Rightarrow> ([], s)))"

definition commentOnPostFast :: "tweet \<Rightarrow> fast_state \<Rightarrow> bool \<times> fast_state" where
  "commentOnPostFast t s =
     (let (text, s1) = getTweetTextFast t s
      in if text = [] then (False, s1)
         else if \<not> reply_button t then (False, s1)
         else
           let s2 = emit [Focus (ReplyButton (tweetId t)),
                          Delay (if fastMode s1 then 100 else 500),
                          Click (ReplyButton (tweetId t)),
                          Delay (if fastMode s1 then 1000 else 2000)] s1;
               s3 = s2\<lparr>currentTweetForComment := Some t\<rparr>
           in (True, emit [SendGroqRequest text] s3))"

text \<open>
  The body of engageWithTweetFast is inside \<^verbatim>\<open>try\<close>; reading \<^verbatim>\<open>settings.enableLiking\<close>
  while \<^verbatim>\<open>settings\<close> is \<^verbatim>\<open>null\<close> throws, which the \<^verbatim>\<open>catch\<close> logs before returning false.
\<close>

definition engageWithTweetFast :: "page \<Rightarrow> tweet \<Rightarrow> string \<Rightarrow> fast_state \<Rightarrow> bool \<times> fast_state" where
  "engageWithTweetFast pg t tid s0 =
     (let s = emit [Engage tid] s0;
          s1 = (if rect_bottom t > innerHeight pg
                then emit [ScrollIntoView (tweetId t), Delay (if fastMode s then 500 else 1000)] s
                else s)
      in case settings s1 of
           None \<Rightarrow> (False, emit [ConsoleError] s1)
         | Some st \<Rightarrow>
            (let (liked, s2) = (if enableLiking st then likePostFast t s1 else (False, s1));
                 (commented, s3) =
                    (if enableCommenting st \<and> shouldCommentFast (random pg 0)
                     then commentOnPostFast t s2 else (False, s2));
                 actionTaken = (liked \<or> commented)
             in if actionTaken
                then (True, (updateLastActionTime pg
                               (s3\<lparr>processedTweets := insert tid (processedTweets s3)\<rparr>))
                            \<lparr>totalTweets := totalTweets s3 + 1\<rparr>)
                else (False, s3)))"

section \<open>The optimized content script: the action queue\<close>

text \<open>
  The loop of processTweetsQuickly up to its \<^verbatim>\<open>break\<close>: the first tweet that is not in
  \<^verbatim>\<open>processedTweets\<close> and passes the visibility check.
\<close>

fun quick_candidate :: "int \<Rightarrow> string set \<Rightarrow> tweet list \<Rightarrow> tweet option" where
  "quick_candidate h processed [] = None"
| "quick_candidate h processed (t # ts) =
     (if getTweetId t \<in> processed then quick_candidate h processed ts
      else if rect_height t > 0 \<and> rect_top t < h \<and> rect_bottom t > 0 then Some t
      else quick_candidate h processed ts)"

text \<open>Where a suspended call of processActionQueue waits.\<close>

datatype drain_task = DrainEngaging queued_action | DrainPacing

text \<open>
  The \<^verbatim>\<open>while\<close> loop of processActionQueue from its condition to the next \<^verbatim>\<open>await\<close>:
  stale actions are shifted off and skipped; \<open>clock k\<close> is the \<open>k\<close>-th reading of
  \<^verbatim>\<open>Date.now()\<close>. The result is the action to dispatch, if any, and the remaining queue.
\<close>

fun drain_pop :: "(nat \<Rightarrow> int) \<Rightarrow> nat \<Rightarrow> queued_action list \<Rightarrow> queued_action option \<times> queued_action list" where
  "drain_pop clock k [] = (None, [])"
| "drain_pop clock k (a # q) =
     (if clock k - timestamp a > 30000 then drain_pop clock (Suc k) q else (Some a, q))"

definition drain_continue :: "(nat \<Rightarrow> int) \<Rightarrow> fast_state \<Rightarrow> fast_state \<times> drain_task option" where
  "drain_continue clock s =
     (case drain_pop clock 0 (actionQueue s) of
        (None, q) \<Rightarrow> (s\<lparr>actionQueue := q, isProcessingQueue := False\<rparr>, None)
      | (Some a, q) \<Rightarrow> (s\<lparr>actionQueue := q\<rparr>, Some (DrainEngaging a)))"

definition processActionQueue :: "(nat \<Rightarrow> int) \<Rightarrow> fast_state \<Rightarrow> fast_state \<times> drain_task option" where
  "processActionQueue clock s =
     (if isProcessingQueue s \<or> actionQueue s = [] then (s, None)
      else drain_continue clock (s\<lparr>isProcessingQueue := True\<rparr>))"

definition pacing_delay :: "fast_state \<Rightarrow> nat" where
  "pacing_delay s = (if fastMode s then 2000 else 5000)"

text \<open>
  A suspended drain goes on: the engagement of the dispatched action completes and the pacing
  delay starts, or the pacing delay ends and the loop pops again.
\<close>

definition drain_resume :: "page \<Rightarrow> drain_task \<Rightarrow> fast_state \<Rightarrow> fast_state \<times> drain_task option" where
  "drain_resume pg task s =
     (case task of
        DrainEngaging a \<Rightarrow>
          (let (_, s1) = engageWithTweetFast pg (tweet a) (q_tweetId a) s
           in (emit [Delay (pacing_delay s1)] s1, Some DrainPacing))
      | DrainPacing \<Rightarrow> drain_continue (date_now pg) s)"

text \<open>
  One whole iteration of the loop body on the head of the queue, read at time \<open>t\<close>:
  shift, staleness check, engagement, pacing delay.
\<close>

definition drain_iteration :: "int \<Rightarrow> page \<Rightarrow> fast_state \<Rightarrow> fast_state" where
  "drain_iteration t pg s =
     (case actionQueue s of
        [] \<Rightarrow> s
      | a # q \<Rightarrow>
          (let s1 = s\<lparr>actionQueue := q\<rparr>
           in if t - timestamp a > 30000 then s1
              else (let (_, s2) = engageWithTweetFast pg (tweet a) (q_tweetId a) s1
                    in emit [Delay (pacing_delay s2)] s2)))"

definition processTweetsQuickly :: "page \<Rightarrow> fast_state \<Rightarrow> fast_state \<times> drain_task option" where
  "processTweetsQuickly pg s =
     (if settings s = None \<or> \<not> automationEnabled s \<or> isRunning s then (s, None)
      else case quick_candidate (innerHeight pg) (processedTweets s) (tweets pg) of
             None \<Rightarrow> (s, None)
           | Some t \<Rightarrow>
               (let s1 = s\<lparr>actionQueue := actionQueue s @
                             [\<lparr>tweet = t, q_tweetId = getTweetId t, timestamp = date_now pg 0\<rparr>]\<rparr>
                in if \<not> isProcessingQueue s1
                   then processActionQueue (\<lambda>k. date_now pg (Suc k)) s1
                   else (s1, None)))"

section \<open>The optimized content script: the reply handler\<close>

definition findReplyButton :: "page \<Rightarrow> target option" where
  "findReplyButton pg =
     (if tweetButton pg then Some TweetButton
      else if tweetButtonInline pg then Some TweetButtonInline
      else None)"

definition quickScroll :: "page \<Rightarrow> fast_state \<Rightarrow> fast_state" where
  "quickScroll pg s =
     emit [ScrollBy (of_int (innerHeight pg) * 0.3), Delay (if fastMode s then 300 else 1000)] s"

definition handleCommentError :: "fast_state \<Rightarrow> fast_state" where
  "handleCommentError s = emit [DispatchEscape, Delay 500] s"

text \<open>
  handleGroqResponse: the only exit to the \<^verbatim>\<open>catch\<close> block that the model has is an
  insertion that throws.
\<close>

definition handleGroqResponse :: "page \<Rightarrow> string \<Rightarrow> fast_state \<Rightarrow> fast_state" where
  "handleGroqResponse pg reply s =
     (let s1 = emit [Delay (if fastMode s then 500 else 1000)] s
      in if active_element pg \<and> active_editable pg \<and> insert_throws pg
         then handleCommentError (emit [ConsoleError] s1)
         else
           let s2 = (if active_element pg \<and> active_editable pg
                     then (if execCommand pg then emit [InsertText reply] s1
                           else emit [SetTextContent reply] s1)
                     else s1);
               s3 = emit [Delay (if fastMode s2 then 500 else 1000)] s2
           in case findReplyButton pg of
                Some b \<Rightarrow>
                  (let s4 = emit [Click b] s3;
                       s5 = s4\<lparr>processedComments := processedComments s4 + 1\<rparr>;
                       s6 = emit [Delay (if fastMode s5 then 1000 else 2000)] s5
                   in quickScroll pg s6)
              | None \<Rightarrow> s3)"

section \<open>The optimized content script: the automation cycle\<close>

text \<open>The \<^verbatim>\<open>for\<close> loop of runAutomation up to the tweet it engages with.\<close>

fun cycle_candidate :: "int \<Rightarrow> string set \<Rightarrow> tweet list \<Rightarrow> tweet option" where
  "cycle_candidate h processed [] = None"
| "cycle_candidate h processed (t # ts) =
     (if getTweetId t \<notin> processed
      then (if rect_height t > 10
            then (if rect_height t > 10 \<and> rect_top t \<ge> 0 \<and> rect_top t < h then Some t
                  else cycle_candidate h processed ts)
            else cycle_candidate h processed ts)
      else cycle_candidate h processed ts)"

text \<open>Where a suspended call of runAutomation waits.\<close>

datatype cycle_task = AwaitEngage tweet | AwaitScrollDelay

datatype exn = Thrown

text \<open>
  The \<^verbatim>\<open>try\<close> block of runAutomation up to its first \<^verbatim>\<open>await\<close>: the state reached, and either
  the exception thrown there or the point where the call is suspended.
\<close>

definition cycle_try :: "page \<Rightarrow> fast_state \<Rightarrow> fast_state \<times> (exn + cycle_task)" where
  "cycle_try pg s =
     (if throw_at pg = Some ThrowAtQuery then (s, Inl Thrown)
      else
        let s1 = s\<lparr>totalTweets := length (tweets pg)\<rparr>
        in if throw_at pg = Some ThrowAtDisplay then (s1, Inl Thrown)
           else case cycle_candidate (innerHeight pg) (processedTweets s1) (tweets pg) of
                  Some t \<Rightarrow> (s1, Inr (AwaitEngage t))
                | None \<Rightarrow>
                    (if throw_at pg = Some ThrowAtScroll then (s1, Inl Thrown)
                     else (emit [ScrollBy (of_int (innerHeight pg) * 0.85), Delay 1500] s1,
                           Inr AwaitScrollDelay)))"

definition cycle_catch :: "fast_state \<Rightarrow> fast_state" where
  "cycle_catch s = emit [ConsoleError] s"

definition cycle_finally :: "fast_state \<Rightarrow> fast_state" where
  "cycle_finally s = s\<lparr>isRunning := False\<rparr>"

text \<open>A call of runAutomation up to its first \<^verbatim>\<open>await\<close>, or to its return.\<close>

definition runAutomation_begin :: "page \<Rightarrow> fast_state \<Rightarrow> fast_state \<times> cycle_task option" where
  "runAutomation_begin pg s =
     (if settings s = None \<or> isRunning s \<or> \<not> automationEnabled s then (s, None)
      else case cycle_try pg (s\<lparr>isRunning := True\<rparr>) of
             (s1, Inl Thrown) \<Rightarrow> (cycle_finally (cycle_catch s1), None)
           | (s1, Inr task) \<Rightarrow> (s1, Some task))"

text \<open>The rest of a suspended call: nothing after the \<^verbatim>\<open>await\<close> can throw.\<close>

definition runAutomation_resume :: "page \<Rightarrow> cycle_task \<Rightarrow> fast_state \<Rightarrow> fast_state" where
  "runAutomation_resume pg task s =
     (case task of
        AwaitEngage t \<Rightarrow> cycle_finally (snd (engageWithTweetFast pg t (getTweetId t) s))
      | AwaitScrollDelay \<Rightarrow> cycle_finally s)"

text \<open>A call of runAutomation that nothing interleaves with.\<close>

definition runAutomation :: "page \<Rightarrow> fast_state \<Rightarrow> fast_state" where
  "runAutomation pg s =
     (case runAutomation_begin pg s of
        (s1, None) \<Rightarrow> s1
      | (s1, Some task) \<Rightarrow> runAutomation_resume pg task s1)"

section \<open>The optimized content script: controls and messages\<close>

text \<open>
  createCounterDisplay, removeCounterDisplay and updateCounterDisplay write the status box on
  the page and nothing else; they are left out, as is the reply of the message listener to
  its sender.
\<close>

definition startAutomationFast :: "fast_state \<Rightarrow> fast_state" where
  "startAutomationFast s =
     (if automationInterval s \<noteq> None then s
      else (emit [ScheduleRun 500] s)\<lparr>automationInterval := Some ()\<rparr>)"

definition stopAutomation :: "fast_state \<Rightarrow> fast_state" where
  "stopAutomation s =
     (let s1 = (if automationInterval s \<noteq> None then s\<lparr>automationInterval := None\<rparr> else s);
          s2 = (if pageVisibilityInterval s1 \<noteq> None then s1\<lparr>pageVisibilityInterval := None\<rparr> else s1)
      in s2\<lparr>isRunning := False\<rparr>)"

definition toggleAutomation :: "bool \<Rightarrow> fast_state \<Rightarrow> fast_state" where
  "toggleAutomation enabled s =
     (let s1 = s\<lparr>automationEnabled := enabled\<rparr>
      in if enabled then startAutomationFast s1 else stopAutomation s1)"

definition startBackgroundMode :: "fast_state \<Rightarrow> fast_state" where
  "startBackgroundMode s = s\<lparr>pageVisibilityInterval := Some ()\<rparr>"

definition default_settings :: settings where
  "default_settings =
     \<lparr>groqApiKey = [], groqModel = [], enableLiking = True, enableCommenting = True,
      s_automationEnabled = False\<rparr>"

text \<open>initialize: \<open>stored\<close> is what \<^verbatim>\<open>chrome.storage.sync.get\<close> returns, None when it throws.\<close>

definition initialize :: "settings option \<Rightarrow> fast_state \<Rightarrow> fast_state" where
  "initialize stored s =
     (let st = (case stored of Some st \<Rightarrow> st | None \<Rightarrow> default_settings);
          s1 = s\<lparr>settings := Some st\<rparr>;
          s2 = (if s_automationEnabled st then toggleAutomation True s1 else s1)
      in startBackgroundMode s2)"

datatype message =
    SettingsUpdated settings
  | AutomationToggle bool
  | GroqApiResponse string
  | GroqApiError string
  | Ping

definition onMessage :: "message \<Rightarrow> page \<Rightarrow> fast_state \<Rightarrow> fast_state" where
  "onMessage m pg s =
     (case m of
        SettingsUpdated st \<Rightarrow>
          (let s1 = s\<lparr>settings := Some st\<rparr>
           in if s_automationEnabled st \<noteq> automationEnabled s1
              then toggleAutomation (s_automationEnabled st) s1 else s1)
      | AutomationToggle enabled \<Rightarrow> toggleAutomation enabled s
      | GroqApiResponse reply \<Rightarrow> handleGroqResponse pg reply s
      | GroqApiError err \<Rightarrow> handleCommentError (emit [ConsoleError] s)
      | Ping \<Rightarrow> s)"

section \<open>The optimized content script as an event system\<close>

text \<open>
  The browser runs one callback at a time; a callback that reaches an \<^verbatim>\<open>await\<close> is suspended
  and other callbacks run before it resumes. The system state is the globals together with
  the suspended calls of runAutomation and of processActionQueue.

  \<open>CallRunAutomation\<close> stands for any of the timers that call runAutomation (the timeout and
  the interval of startAutomationFast, the timeout of the visibility handler);
  \<open>CallProcessTweetsQuickly\<close> for the debounce timer of the mutation observer. Both
  functions check their guards themselves, so the events may arrive in any state.
  \<open>ResumeCycle k\<close> and \<open>ResumeDrain k\<close> let the \<open>k\<close>-th suspended call go on; the engagement
  a call was waiting for takes effect on the globals at that moment.
\<close>

record system =
  globals :: fast_state
  cycles :: "cycle_task list"
  drains :: "drain_task list"

datatype event =
    OnMessage message page
  | CallRunAutomation page
  | ResumeCycle nat page
  | CallProcessTweetsQuickly page
  | ResumeDrain nat page

definition remove_nth :: "nat \<Rightarrow> 'a list \<Rightarrow> 'a list" where
  "remove_nth k xs = take k xs @ drop (Suc k) xs"

fun step :: "event \<Rightarrow> system \<Rightarrow> system" where
  "step (OnMessage m pg) sys = sys\<lparr>globals := onMessage m pg (globals sys)\<rparr>"
| "step (CallRunAutomation pg) sys =
     (case runAutomation_begin pg (globals sys) of
        (g, None) \<Rightarrow> sys\<lparr>globals := g\<rparr>
      | (g, Some task) \<Rightarrow> sys\<lparr>globals := g, cycles := cycles sys @ [task]\<rparr>)"
| "step (ResumeCycle k pg) sys =
     (if k < length (cycles sys)
      then sys\<lparr>globals := runAutomation_resume pg (cycles sys ! k) (globals sys),
               cycles := remove_nth k (cycles sys)\<rparr>
      else sys)"
| "step (CallProcessTweetsQuickly pg) sys =
     (case processTweetsQuickly pg (globals sys) of
        (g, None) \<Rightarrow> sys\<lparr>globals := g\<rparr>
      | (g, Some task) \<Rightarrow> sys\<lparr>globals := g, drains := drains sys @ [task]\<rparr>)"
| "step (ResumeDrain k pg) sys =
     (if k < length (drains sys)
      then (case drain_resume pg (drains sys ! k) (globals sys) of
              (g, None) \<Rightarrow> sys\<lparr>globals := g, drains := remove_nth k (drains sys)\<rparr>
            | (g, Some task) \<Rightarrow> sys\<lparr>globals := g, drains := (drains sys)[k := task]\<rparr>)
      else sys)"

fun exec :: "event list \<Rightarrow> system \<Rightarrow> system" where
  "exec [] sys = sys"
| "exec (e # es) sys = exec es (step e sys)"

text \<open>The system once initialize has run.\<close>

definition init_system :: "settings option \<Rightarrow> system" where
  "init_system stored = \<lparr>globals = initialize stored initial_state, cycles = [], drains = []\<rparr>"

section \<open>The first content script\<close>

text \<open>
  The repository also holds the content script the optimized one was rewritten from. It
  declares the globals of \<open>script_state\<close> only. Where both scripts have a function of the
  same name, the first script's is suffixed \<open>_orig\<close>.
\<close>

fun first_text :: "string option list \<Rightarrow> string option" where
  "first_text [] = None"
| "first_text (None # cs) = first_text cs"
| "first_text (Some c # cs) = (if trim c \<noteq> [] then Some (trim c) else first_text cs)"

definition getTweetText :: "tweet \<Rightarrow> string" where
  "getTweetText t =
     (case first_text [tweetText t, lang_span_text t, css_text t] of
        Some text \<Rightarrow> text
      | None \<Rightarrow>
          (case tweetText t of
             Some _ \<Rightarrow> (let text = trim (parent_text t) in if length text > 10 then text else [])
           | None \<Rightarrow> []))"

definition shouldComment :: "real \<Rightarrow> bool" where
  "shouldComment r = (r < 0.4)"

text \<open>
  likePost: when the like button is found only at the retry, \<^verbatim>\<open>likeButton\<close> is still
  \<^verbatim>\<open>null\<close>, and simulateMouseMovement on it throws inside the \<^verbatim>\<open>try\<close>.
\<close>

definition likePost :: "tweet \<Rightarrow> ('a script_state_scheme) \<Rightarrow> bool \<times> ('a script_state_scheme)" where
  "likePost t s =
     (let s1 = (if \<not> like_button t then emit [Delay 1000] s else s)
      in if \<not> like_button t \<and> \<not> like_button_retry t then (False, s1)
         else if unlike_marker t then (True, s1\<lparr>processedLikes := processedLikes s1 + 1\<rparr>)
         else if \<not> like_button t then (False, emit [ConsoleError] s1)
         else
           let s2 = emit [MouseMove (LikeButton (tweetId t)), DelayBetween 100 300,
                          Click (LikeButton (tweetId t)), Delay 1000] s1
           in if unlike_after_click t
              then (True, s2\<lparr>processedLikes := processedLikes s2 + 1\<rparr>)
              else (False, s2))"

definition reply_prompt :: "string \<Rightarrow> string" where
  "reply_prompt text =
     ''Generate a short, natural, and engaging reply to this tweet: '' @ [CHR 0x22] @ text
     @ [CHR 0x22, CHR 0x0A, CHR 0x0A] @ ''Requirements:'' @ [CHR 0x0A]
     @ ''- Keep it under 200 characters'' @ [CHR 0x0A]
     @ ''- Sound like a real person'' @ [CHR 0x0A]
     @ ''- Be relevant to the tweet content'' @ [CHR 0x0A]
     @ ''- Use casual language'' @ [CHR 0x0A]
     @ ''- Don't use hashtags or mentions'' @ [CHR 0x0A, CHR 0x0A] @ ''Reply:''"

definition commentOnPost :: "tweet \<Rightarrow> ('a script_state_scheme) \<Rightarrow> bool \<times> ('a script_state_scheme)" where
  "commentOnPost t s =
     (let text = getTweetText t
      in if text = [] then (False, s)
         else if \<not> reply_button t then (False, s)
         else
           let s1 = emit [MouseMove (ReplyButton (tweetId t)), DelayBetween 100 300,
                          Click (ReplyButton (tweetId t)), Delay 2000] s;
               s2 = s1\<lparr>currentTweetForComment := Some t\<rparr>
           in (True, emit [SendGroqRequest (reply_prompt text)] s2))"

text \<open>engageWithTweet for the \<open>i\<close>-th tweet of a cycle.\<close>

definition engageWithTweet :: "page \<Rightarrow> nat \<Rightarrow> tweet \<Rightarrow> ('a script_state_scheme) \<Rightarrow> bool \<times> ('a script_state_scheme)" where
  "engageWithTweet pg i t s =
     (let s1 = emit [Engage (tweetId t), ScrollIntoView (tweetId t), Delay 1000] s
      in if engage_top t < 0 \<or> engage_bottom t > innerHeight pg then (False, s1)
         else case settings s1 of
                None \<Rightarrow> (False, emit [ConsoleError] s1)
              | Some st \<Rightarrow>
                 (let (liked, s2) = (if enableLiking st then likePost t s1 else (False, s1));
                      (commented, s3) =
                         (if enableCommenting st \<and> shouldComment (random pg i)
                          then commentOnPost t s2 else (False, s2));
                      actionTaken = (liked \<or> commented)
                  in if actionTaken
                     then (True, emit [DelayBetween 30000 35000] (s3\<lparr>lastActionTime := date_now pg i\<rparr>))
                     else (False, s3)))"

definition button_matches :: "string \<Rightarrow> bool" where
  "button_matches text =
     (let buttonText = toLowerCase text
      in str_includes buttonText ''reply'' \<or> str_includes buttonText ''post''
         \<or> str_includes buttonText ''tweet'')"

fun find_in_selector :: "nat \<Rightarrow> nat \<Rightarrow> string list \<Rightarrow> target option" where
  "find_in_selector i j [] = None"
| "find_in_selector i j (b # bs) =
     (if button_matches b then Some (SelectorButton i j) else find_in_selector i (Suc j) bs)"

fun find_in_selectors :: "nat \<Rightarrow> string list list \<Rightarrow> target option" where
  "find_in_selectors i [] = None"
| "find_in_selectors i (bs # rest) =
     (case find_in_selector i 0 bs of
        Some b \<Rightarrow> Some b
      | None \<Rightarrow> find_in_selectors (Suc i) rest)"

definition findReplyButton_orig :: "page \<Rightarrow> target option" where
  "findReplyButton_orig pg = find_in_selectors 0 (selector_buttons pg)"

definition simulateTyping :: "string \<Rightarrow> ('a script_state_scheme) \<Rightarrow> ('a script_state_scheme)" where
  "simulateTyping text s = emit (concat (map (\<lambda>c. [TypeKey c, DelayBetween 30 80]) text)) s"

definition handleCommentError_orig :: "page \<Rightarrow> ('a script_state_scheme) \<Rightarrow> ('a script_state_scheme)" where
  "handleCommentError_orig pg s =
     emit (concat (map (\<lambda>i. [Click (CloseButton i), Delay 500]) [0..<close_buttons pg])
           @ [DispatchEscape, Delay 1000]) s"

definition handleGroqResponse_orig :: "page \<Rightarrow> string \<Rightarrow> ('a script_state_scheme) \<Rightarrow> ('a script_state_scheme)" where
  "handleGroqResponse_orig pg reply s =
     (let s1 = emit [Delay 1500] s
      in if insert_throws pg then handleCommentError_orig pg (emit [ConsoleError] s1)
         else
           let s2 = emit [InsertText (trim reply), Delay 500] s1;
               s3 = (if active_element pg \<and> active_text pg \<noteq> trim reply
                     then simulateTyping (trim reply) s2 else s2);
               s4 = emit [Delay 1000] s3
           in case findReplyButton_orig pg of
                None \<Rightarrow> handleCommentError_orig pg s4
              | Some b \<Rightarrow>
                  (let s5 = emit [MouseMove b, DelayBetween 100 300, Click b, Delay 3000] s4
                   in s5\<lparr>processedComments := processedComments s5 + 1\<rparr>))"

text \<open>The \<^verbatim>\<open>for\<close> loop of the first runAutomation, from the \<open>i\<close>-th tweet on.\<close>

fun process_tweets :: "page \<Rightarrow> nat \<Rightarrow> tweet list \<Rightarrow> ('a script_state_scheme) \<Rightarrow> bool \<times> ('a script_state_scheme)" where
  "process_tweets pg i [] s = (False, s)"
| "process_tweets pg i (t # ts) s =
     (if tweetId t \<in> processedTweets s then process_tweets pg (Suc i) ts s
      else
        let s1 = emit [ScrollIntoView (tweetId t), Delay 2000] s
        in if centered_top t \<ge> 0 \<and> centered_bottom t \<le> innerHeight pg
           then (case engageWithTweet pg i t s1 of
                   (True, s2) \<Rightarrow> (True, s2\<lparr>processedTweets := insert (tweetId t) (processedTweets s2)\<rparr>)
                 | (False, s2) \<Rightarrow> process_tweets pg (Suc i) ts s2)
           else process_tweets pg (Suc i) ts s1)"

definition smoothScroll :: "page \<Rightarrow> ('a script_state_scheme) \<Rightarrow> bool \<times> ('a script_state_scheme)" where
  "smoothScroll pg s =
     (let viewportHeight = innerHeight pg;
          scrollAmount = (of_int viewportHeight :: real) / 2;
          currentScroll = scrollY pg;
          targetScroll = min (of_int currentScroll + scrollAmount)
                             (of_int (scrollHeight pg - viewportHeight))
      in if currentScroll < scrollHeight pg - viewportHeight
         then (True, emit [ScrollTo targetScroll, Delay 3000] s)
         else (False, s))"

text \<open>The end-of-feed branch of the first runAutomation.\<close>

definition reset_session :: "('a script_state_scheme) \<Rightarrow> ('a script_state_scheme)" where
  "reset_session s =
     emit [ScheduleReload 5000]
       (s\<lparr>totalTweets := 0, processedLikes := 0, processedComments := 0, processedTweets := {}\<rparr>)"

definition runAutomation_orig :: "page \<Rightarrow> ('a script_state_scheme) \<Rightarrow> ('a script_state_scheme)" where
  "runAutomation_orig pg s =
     (if settings s = None \<or> isRunning s \<or> \<not> automationEnabled s then s
      else
        let s1 = s\<lparr>isRunning := True\<rparr>;
            visible = filter (\<lambda>t. rect_height t > 0 \<and> rect_width t > 0) (tweets pg);
            s2 = s1\<lparr>totalTweets := length visible\<rparr>;
            (processedAnyTweet, s3) = process_tweets pg 0 visible s2;
            s4 = (if \<not> processedAnyTweet
                  then (case smoothScroll pg s3 of
                          (True, s') \<Rightarrow> s'
                        | (False, s') \<Rightarrow> reset_session s')
                  else s3)
        in s4\<lparr>isRunning := False\<rparr>)"

section \<open>Concrete inputs\<close>

text \<open>Fifty insertions with distinct keys, oldest first.\<close>

definition ops50 :: "(nat \<times> nat) list" where
  "ops50 = map (\<lambda>i. (i, i)) [0..<50]"

text \<open>
  A tweet in view that is not liked yet, whose like button works and whose text can be read;
  the same tweet already liked; and pages that show one of them. No comment gate opens on
  these pages (every draw is 0.9) and the clock stands at 1000 ms.
\<close>

definition tweetA :: tweet where
  "tweetA =
     \<lparr>tweetId = ''tweet_A'', rect_top = 100, rect_bottom = 300, rect_height = 200,
      rect_width = 500, like_button = True, like_button_retry = True, unlike_marker = False,
      unlike_after_click = True, tweetText = Some ''hello world'', lang_span_text = None,
      css_text = None, parent_text = ''hello world'', reply_button = True,
      centered_top = 300, centered_bottom = 500, engage_top = 300, engage_bottom = 500\<rparr>"

definition tweetA_liked :: tweet where
  "tweetA_liked = tweetA\<lparr>unlike_marker := True\<rparr>"

definition pageA :: page where
  "pageA =
     \<lparr>tweets = [tweetA], innerHeight = 800, scrollY = 0, scrollHeight = 5000,
      random = (\<lambda>k. 0.9), date_now = (\<lambda>k. 1000), throw_at = None,
      active_element = True, active_editable = True, active_text = ''nice one'',
      execCommand = True, insert_throws = False, tweetButton = True,
      tweetButtonInline = False, selector_buttons = [[''Reply''], [], [], []],
      close_buttons = 1\<rparr>"

definition pageA_liked :: page where
  "pageA_liked = pageA\<lparr>tweets := [tweetA_liked]\<rparr>"

text \<open>The page of the liked tweet, scrolled to the end of the document.\<close>

definition page_end :: page where
  "page_end = pageA_liked\<lparr>scrollY := 4200\<rparr>"

definition user_settings :: settings where
  "user_settings =
     \<lparr>groqApiKey = ''key'', groqModel = ''llama-3.3-70b-versatile'', enableLiking = True,
      enableCommenting = True, s_automationEnabled = True\<rparr>"

text \<open>The globals after initialize has loaded \<open>user_settings\<close>.\<close>

definition ready :: fast_state where
  "ready = initialize (Some user_settings) initial_state"

text \<open>An action for \<open>tweetA\<close> enqueued at time 0, alone in the queue.\<close>

definition actA :: queued_action where
  "actA = \<lparr>tweet = tweetA, q_tweetId = ''tweet_A'', timestamp = 0\<rparr>"

definition queued :: fast_state where
  "queued = ready\<lparr>actionQueue := [actA]\<rparr>"

text \<open>The globals of the first content script, enabled with \<open>user_settings\<close>.\<close>

definition ready_orig :: script_state where
  "ready_orig =
     \<lparr>settings = Some user_settings, isRunning = False, lastActionTime = 0,
      processedTweets = {}, automationEnabled = True, automationInterval = Some (),
      totalTweets = 0, processedLikes = 0, processedComments = 0,
      currentTweetForComment = None, trace = []\<rparr>"

text \<open>
  The state after one cycle on the page of the liked tweet: in the optimized script, and in
  the first script.
\<close>

definition after_like :: fast_state where
  "after_like = runAutomation pageA_liked ready"

definition after_like_orig :: script_state where
  "after_like_orig = runAutomation_orig pageA_liked ready_orig"

text \<open>
  The page without a submit button, and the globals after automation has been switched off
  by an \<^verbatim>\<open>automationToggle\<close> message.
\<close>

definition page_nosubmit :: page where
  "page_nosubmit = pageA\<lparr>tweetButton := False, tweetButtonInline := False, selector_buttons := [[], [], [], [''Cancel'']]\<rparr>"

definition disabled :: fast_state where
  "disabled = onMessage (AutomationToggle False) pageA ready"

text \<open>A page on which no tweet has been rendered yet.\<close>

definition page_empty :: page where
  "page_empty = pageA\<lparr>tweets := []\<rparr>"

text \<open>
  Two schedules of the event system. In the first, automation is switched off and on again
  while a cycle waits in its scroll delay, and the timeout of startAutomationFast then calls
  runAutomation. In the second nothing disables automation: a second call of runAutomation
  arrives while the first cycle waits, the first cycle ends, and a third call arrives.
\<close>

definition restart_schedule :: "event list" where
  "restart_schedule =
     [CallRunAutomation page_empty,
      OnMessage (AutomationToggle False) page_empty,
      OnMessage (AutomationToggle True) page_empty,
      CallRunAutomation pageA]"

definition steady_schedule :: "event list" where
  "steady_schedule =
     [CallRunAutomation page_empty,
      CallRunAutomation pageA,
      ResumeCycle 0 page_empty,
      CallRunAutomation pageA]"

text \<open>
  A page whose only tweet shows no like button, and a schedule on it: the debounced observer
  callback fires and starts the drain, the engagement ends without an action (no like
  button, comment gate closed) and the drain enters its pacing delay of 2000 ms, during
  which the observer callback fires twice more, 500 ms after further changes of the page.
  \<open>scanned_twice\<close> is the state before the last scan.
\<close>

definition page_unlikable :: page where
  "page_unlikable = pageA\<lparr>tweets := [tweetA\<lparr>like_button := False\<rparr>]\<rparr>"

definition scan_schedule :: "event list" where
  "scan_schedule =
     [CallProcessTweetsQuickly page_unlikable, ResumeDrain 0 page_unlikable,
      CallProcessTweetsQuickly page_unlikable, CallProcessTweetsQuickly page_unlikable]"

definition scanned_twice :: fast_state where
  "scanned_twice = globals (exec (take 3 scan_schedule) (init_system (Some user_settings)))"

text \<open>
  The liked tweet reaching below the viewport, and a schedule on its page: a scan starts the
  drain, whose engagement waits 500 ms after scrollIntoView; in that time a timer calls
  runAutomation, which engages with the same tweet; then both engagements complete.
\<close>

definition page_low :: page where
  "page_low = pageA\<lparr>tweets := [tweetA_liked\<lparr>rect_bottom := 900, rect_height := 800\<rparr>]\<rparr>"

definition double_like_schedule :: "event list" where
  "double_like_schedule =
     [CallProcessTweetsQuickly page_low, CallRunAutomation page_low,
      ResumeDrain 0 page_low, ResumeCycle 0 page_low]"

text \<open>
  Tweets with pairwise different ids whose text element holds \<^verbatim>\<open>"  hello world "\<close>, each
  alone on a page where the comment gate opens (every draw is 0.1), and the schedule of \<open>n\<close>
  cycles in which runAutomation engages with the first \<open>n\<close> of them, one after the other:
  each engagement likes the tweet and reads its text for the reply.
\<close>

definition tweet_no :: "nat \<Rightarrow> tweet" where
  "tweet_no i = tweetA\<lparr>tweetId := ''tweet_'' @ replicate (Suc i) (CHR ''x''),
                       tweetText := Some ''  hello world ''\<rparr>"

definition page_no :: "nat \<Rightarrow> page" where
  "page_no i = pageA\<lparr>tweets := [tweet_no i], random := (\<lambda>k. 0.1)\<rparr>"

definition fill_schedule :: "nat \<Rightarrow> event list" where
  "fill_schedule n =
     concat (map (\<lambda>i. [CallRunAutomation (page_no i), ResumeCycle 0 (page_no i)]) [0..<n])"

text \<open>
  A hundred prompts with pairwise different cache keys (\<^verbatim>\<open>"A"\<close>, \<^verbatim>\<open>"B"\<close>, \<^verbatim>\<open>"AA"\<close>, \<^verbatim>\<open>"BB"\<close>,
  ...), and the insertions that processApiRequest makes when it answers each of them with
  \<^verbatim>\<open>"ok"\<close>.
\<close>

definition api_prompt :: "nat \<Rightarrow> string" where
  "api_prompt i = replicate (Suc (i div 2)) (if even i then CHR ''A'' else CHR ''B'')"

definition api_history :: "(string \<times> string) list" where
  "api_history = map (\<lambda>i. (cacheKey (api_prompt i), ''ok'')) [0..<100]"


section \<open>Auxiliary definitions\<close>

text \<open>The fields that the engagement of a tweet never writes.\<close>

definition same_controls :: "fast_state \<Rightarrow> fast_state \<Rightarrow> bool" where
  "same_controls s s' =
     (settings s' = settings s \<and> isRunning s' = isRunning s
      \<and> automationEnabled s' = automationEnabled s
      \<and> automationInterval s' = automationInterval s
      \<and> pageVisibilityInterval s' = pageVisibilityInterval s
      \<and> actionQueue s' = actionQueue s
      \<and> isProcessingQueue s' = isProcessingQueue s
      \<and> fastMode s' = fastMode s)"

text \<open>
  The parts of engageWithTweetFast: the state in which it reads the settings, the like step
  and the comment step.
\<close>

definition engage_start :: "page \<Rightarrow> tweet \<Rightarrow> string \<Rightarrow> fast_state \<Rightarrow> fast_state" where
  "engage_start pg t tid s =
     (if rect_bottom t > innerHeight pg
      then emit [ScrollIntoView (tweetId t), Delay (if fastMode s then 500 else 1000)]
             (emit [Engage tid] s)
      else emit [Engage tid] s)"

definition engage_like :: "settings \<Rightarrow> tweet \<Rightarrow> fast_state \<Rightarrow> bool \<times> fast_state" where
  "engage_like st t s1 = (if enableLiking st then likePostFast t s1 else (False, s1))"

definition engage_comment :: "settings \<Rightarrow> page \<Rightarrow> tweet \<Rightarrow> fast_state \<Rightarrow> bool \<times> fast_state" where
  "engage_comment st pg t s2 =
     (if enableCommenting st \<and> shouldCommentFast (random pg 0)
      then commentOnPostFast t s2 else (False, s2))"


text \<open>The effects of simulateTyping and of the close-button loop of handleCommentError.\<close>

definition typing :: "string \<Rightarrow> effect list" where
  "typing text = concat (map (\<lambda>c. [TypeKey c, DelayBetween 30 80]) text)"

definition closing :: "nat \<Rightarrow> effect list" where
  "closing n = concat (map (\<lambda>i. [Click (CloseButton i), Delay 500]) [0..<n])"

text \<open>The events that make the message listener call stopAutomation.\<close>

fun disables :: "event \<Rightarrow> bool" where
  "disables (OnMessage (AutomationToggle enabled) pg) = (\<not> enabled)"
| "disables (OnMessage (SettingsUpdated st) pg) = (\<not> s_automationEnabled st)"
| "disables e = False"

text \<open>No cycle is active, or one is and the running flag is set.\<close>

definition one_cycle :: "system \<Rightarrow> bool" where
  "one_cycle sys =
     (cycles sys = [] \<or> (length (cycles sys) = 1 \<and> isRunning (globals sys)))"

text \<open>\<open>n\<close> calls of likePostFast on the same tweet, one after the other.\<close>

fun like_times :: "nat \<Rightarrow> tweet \<Rightarrow> fast_state \<Rightarrow> fast_state" where
  "like_times 0 t s = s"
| "like_times (Suc n) t s = like_times n t (snd (likePostFast t s))"

text \<open>A cache as a JavaScript Map of at most \<open>cap\<close> entries can be: no key twice.\<close>

definition cache_ok :: "nat \<Rightarrow> ('k, 'v) js_map \<Rightarrow> bool" where
  "cache_ok cap m = (distinct (map fst m) \<and> length m \<le> cap)"

text \<open>
  The text cache after the first \<open>n\<close> tweets of \<open>tweet_no\<close> have been read, and the states
  of the event system between the cycles of \<open>fill_schedule\<close>.
\<close>

definition texts_of :: "nat \<Rightarrow> (string, string) js_map" where
  "texts_of n = map (\<lambda>i. (getTweetId (tweet_no i), ''hello world'')) [0..<n]"

definition fill_ok :: "nat \<Rightarrow> system \<Rightarrow> bool" where
  "fill_ok n sys =
     (cycles sys = [] \<and> settings (globals sys) = Some user_settings
      \<and> \<not> isRunning (globals sys) \<and> automationEnabled (globals sys)
      \<and> processedTweets (globals sys) = (\<lambda>i. getTweetId (tweet_no i)) ` {..<n}
      \<and> tweetCache (globals sys) = texts_of n)"

text \<open>
  The two kinds of step that write the seen counter. \<open>scan_count e sys\<close> is the number that
  event \<open>e\<close> stores in \<^verbatim>\<open>totalTweets\<close> when it is a call of runAutomation that gets past the
  guard and past \<^verbatim>\<open>document.querySelectorAll\<close> (line 410). \<open>completed_action e sys\<close> holds
  when \<open>e\<close> resumes a suspended cycle or drain whose awaited engagement takes an action
  (line 227).
\<close>

definition scan_count :: "event \<Rightarrow> system \<Rightarrow> nat option" where
  "scan_count e sys =
     (case e of
        CallRunAutomation pg \<Rightarrow>
          (if settings (globals sys) \<noteq> None \<and> \<not> isRunning (globals sys)
              \<and> automationEnabled (globals sys) \<and> throw_at pg \<noteq> Some ThrowAtQuery
           then Some (length (tweets pg)) else None)
      | _ \<Rightarrow> None)"

definition completed_action :: "event \<Rightarrow> system \<Rightarrow> bool" where
  "completed_action e sys =
     (case e of
        ResumeCycle k pg \<Rightarrow>
          k < length (cycles sys)
          \<and> (case cycles sys ! k of
               AwaitEngage t \<Rightarrow> fst (engageWithTweetFast pg t (getTweetId t) (globals sys))
             | AwaitScrollDelay \<Rightarrow> False)
      | ResumeDrain k pg \<Rightarrow>
          k < length (drains sys)
          \<and> (case drains sys ! k of
               DrainEngaging a \<Rightarrow> fst (engageWithTweetFast pg (tweet a) (q_tweetId a) (globals sys))
             | DrainPacing \<Rightarrow> False)
      | _ \<Rightarrow> False)"

text \<open>
  Along a run from \<open>sys\<close>: no event starts a cycle that sets the counter, and the number of
  engagements that complete with an action taken.
\<close>

fun no_scan :: "event list \<Rightarrow> system \<Rightarrow> bool" where
  "no_scan [] sys = True"
| "no_scan (e # es) sys = (scan_count e sys = None \<and> no_scan es (step e sys))"

fun engagements :: "event list \<Rightarrow> system \<Rightarrow> nat" where
  "engagements [] sys = 0"
| "engagements (e # es) sys =
     (if completed_action e sys then 1 else 0) + engagements es (step e sys)"


section \<open>The bounded caches: size and eviction\<close>

lemma update_fresh: "k \<notin> set (map fst m) \<Longrightarrow> AList.update k v m = m @ [(k, v)]"
  by (induction m) auto

lemma update_present_length:
  "k \<in> set (map fst m) \<Longrightarrow> length (AList.update k v m) = length m"
  by (induction m) auto

lemma cache_insert_fresh_below:
  "k \<notin> set (map fst m) \<Longrightarrow> length m < cap \<Longrightarrow> cache_insert cap k v m = m @ [(k, v)]"
  by (simp add: cache_insert_def map_set_def map_size_def Let_def update_fresh)

lemma cache_insert_present:
  "k \<in> set (map fst m) \<Longrightarrow> length m \<le> cap \<Longrightarrow> cache_insert cap k v m = AList.update k v m"
  by (simp add: cache_insert_def map_set_def map_size_def Let_def update_present_length)

lemma cache_insert_full:
  assumes "k \<notin> set (map fst m)" and "length m = cap" and "distinct (map fst m)" and "m \<noteq> []"
  shows "cache_insert cap k v m = tl m @ [(k, v)]"
proof -
  obtain k0 v0 r where m: "m = (k0, v0) # r"
    using \<open>m \<noteq> []\<close> by (cases m) auto
  have upd: "AList.update k v m = (k0, v0) # (r @ [(k, v)])"
    using update_fresh [OF assms(1), of v] by (simp add: m)
  have k0: "k0 \<noteq> k" "k0 \<notin> fst ` set r"
    using assms(1,3) by (auto simp: m)
  have del: "AList.delete k0 ((k0, v0) # (r @ [(k, v)])) = r @ [(k, v)]"
    using k0 by simp
  have len: "cap < length ((k0, v0) # (r @ [(k, v)]))"
    using assms(2) by (simp add: m)
  have "cache_insert cap k v m = AList.delete k0 ((k0, v0) # (r @ [(k, v)]))"
    unfolding cache_insert_def map_set_def map_size_def Let_def upd
    using len by (simp add: map_first_key_def map_delete_def)
  then show ?thesis
    using del by (simp add: m)
qed

lemma cache_insert_invariant:
  assumes "distinct (map fst m)" and "length m \<le> cap"
  shows "distinct (map fst (cache_insert cap k v m)) \<and> length (cache_insert cap k v m) \<le> cap"
proof (cases "k \<in> set (map fst m)")
  case True
  then show ?thesis
    using assms by (simp add: cache_insert_present distinct_update update_present_length)
next
  case False
  show ?thesis
  proof (cases "length m < cap")
    case True
    then show ?thesis
      using False assms by (simp add: cache_insert_fresh_below)
  next
    case full: False
    then have len: "length m = cap" using assms(2) by simp
    show ?thesis
    proof (cases m)
      case Nil
      then show ?thesis
        using len by (simp add: cache_insert_def map_set_def map_size_def Let_def
            map_first_key_def map_delete_def)
    next
      case (Cons a r)
      then have "cache_insert cap k v m = tl m @ [(k, v)]"
        using cache_insert_full [OF False len assms(1)] by simp
      then show ?thesis
        using Cons False assms len by auto
    qed
  qed
qed

lemma foldl_cache_invariant:
  "distinct (map fst m) \<Longrightarrow> length m \<le> cap \<Longrightarrow>
   distinct (map fst (foldl (\<lambda>m (k, v). cache_insert cap k v m) m ops)) \<and>
   length (foldl (\<lambda>m (k, v). cache_insert cap k v m) m ops) \<le> cap"
proof (induction ops arbitrary: m)
  case Nil
  then show ?case by simp
next
  case (Cons a ops)
  obtain k v where a: "a = (k, v)" by (cases a)
  show ?case
    using Cons.IH [of "cache_insert cap k v m"] cache_insert_invariant [OF Cons.prems, of k v]
    by (simp add: a)
qed

lemma cache_run_invariant:
  "distinct (map fst (cache_run cap ops)) \<and> length (cache_run cap ops) \<le> cap"
  unfolding cache_run_def using foldl_cache_invariant [of "[]" cap ops] by simp

section \<open>Basic facts about the state\<close>

lemma emit_simps [simp]:
  "trace (emit es s) = trace s @ es"
  "settings (emit es s) = settings s"
  "isRunning (emit es s) = isRunning s"
  "lastActionTime (emit es s) = lastActionTime s"
  "processedTweets (emit es s) = processedTweets s"
  "automationEnabled (emit es s) = automationEnabled s"
  "automationInterval (emit es s) = automationInterval s"
  "totalTweets (emit es s) = totalTweets s"
  "processedLikes (emit es s) = processedLikes s"
  "processedComments (emit es s) = processedComments s"
  "currentTweetForComment (emit es s) = currentTweetForComment s"
  by (simp_all add: emit_def)

lemma emit_fast_simps [simp]:
  "pageVisibilityInterval (emit es s) = pageVisibilityInterval s"
  "tweetCache (emit es s) = tweetCache s"
  "actionQueue (emit es s) = actionQueue s"
  "isProcessingQueue (emit es s) = isProcessingQueue s"
  "fastMode (emit es s) = fastMode s"
  by (simp_all add: emit_def)

lemmas input_defs = ready_def initialize_def initial_state_def user_settings_def
  toggleAutomation_def startAutomationFast_def startBackgroundMode_def tweetA_def
  tweetA_liked_def pageA_def pageA_liked_def page_end_def actA_def queued_def

lemmas engine_defs = engageWithTweetFast_def likePostFast_def commentOnPostFast_def
  getTweetTextFast_def shouldCommentFast_def updateLastActionTime_def getTweetId_def
  pacing_delay_def emit_def Let_def

lemma ready_eval:
  "ready =
     \<lparr>settings = Some user_settings, isRunning = False, lastActionTime = 0,
      processedTweets = {}, automationEnabled = True, automationInterval = Some (),
      totalTweets = 0, processedLikes = 0, processedComments = 0,
      currentTweetForComment = None, trace = [ScheduleRun 500],
      pageVisibilityInterval = Some (), tweetCache = [], actionQueue = [],
      isProcessingQueue = False, fastMode = True\<rparr>"
  by (simp add: input_defs emit_def)

section \<open>Evaluation of the concrete pages\<close>

lemma init_eval: "init_system (Some user_settings) = \<lparr>globals = ready, cycles = [], drains = []\<rparr>"
  by (simp add: init_system_def ready_def)

lemma page_empty_simps:
  "tweets page_empty = []" "throw_at page_empty = None" "innerHeight page_empty = 800"
  by (simp_all add: page_empty_def pageA_def)

lemma pageA_simps:
  "tweets pageA = [tweetA]" "throw_at pageA = None" "innerHeight pageA = 800"
  by (simp_all add: pageA_def)

lemma tweetA_simps:
  "tweetId tweetA = ''tweet_A''" "rect_height tweetA = 200" "rect_top tweetA = 100"
  "rect_bottom tweetA = 300"
  by (simp_all add: tweetA_def)

section \<open>What the engagement of a tweet leaves alone\<close>

lemma likePostFast_controls: "same_controls s (snd (likePostFast t s))"
  by (simp add: likePostFast_def same_controls_def Let_def)

lemma getTweetTextFast_controls: "same_controls s (snd (getTweetTextFast t s))"
  by (simp add: getTweetTextFast_def same_controls_def Let_def split: option.splits)

lemma commentOnPostFast_controls: "same_controls s (snd (commentOnPostFast t s))"
  using getTweetTextFast_controls [of s t]
  by (cases "getTweetTextFast t s") (simp add: commentOnPostFast_def same_controls_def Let_def)

lemma engage_start_settings [simp]: "settings (engage_start pg t tid s) = settings s"
  by (simp add: engage_start_def)

lemma engageWithTweetFast_None:
  "settings s = None \<Longrightarrow>
   engageWithTweetFast pg t tid s = (False, emit [ConsoleError] (engage_start pg t tid s))"
  by (simp add: engageWithTweetFast_def engage_start_def Let_def)

lemma engageWithTweetFast_Some:
  assumes "settings s = Some st"
  shows "engageWithTweetFast pg t tid s =
     (let r2 = engage_like st t (engage_start pg t tid s);
          r3 = engage_comment st pg t (snd r2)
      in if fst r2 \<or> fst r3
         then (True, (updateLastActionTime pg
                        ((snd r3)\<lparr>processedTweets := insert tid (processedTweets (snd r3))\<rparr>))
                     \<lparr>totalTweets := totalTweets (snd r3) + 1\<rparr>)
         else (False, snd r3))"
  using assms
  by (simp add: engageWithTweetFast_def engage_start_def engage_like_def engage_comment_def
      Let_def case_prod_beta)

lemma engage_start_controls: "same_controls s (engage_start pg t tid s)"
  by (simp add: engage_start_def same_controls_def)

lemma engage_like_controls: "same_controls s (snd (engage_like st t s))"
  using likePostFast_controls [of s t] by (simp add: engage_like_def same_controls_def)

lemma engage_comment_controls: "same_controls s (snd (engage_comment st pg t s))"
  using commentOnPostFast_controls [of s t] by (simp add: engage_comment_def same_controls_def)

lemma same_controls_trans:
  "same_controls a b \<Longrightarrow> same_controls b c \<Longrightarrow> same_controls a c"
  by (simp add: same_controls_def)

lemma engageWithTweetFast_controls: "same_controls s (snd (engageWithTweetFast pg t tid s))"
proof (cases "settings s")
  case None
  then show ?thesis
    using engage_start_controls [of s pg t tid]
    by (simp add: engageWithTweetFast_None same_controls_def)
next
  case (Some st)
  let ?s1 = "engage_start pg t tid s"
  let ?r2 = "engage_like st t ?s1"
  let ?r3 = "engage_comment st pg t (snd ?r2)"
  have "same_controls s (snd ?r3)"
    using engage_start_controls [of s pg t tid] engage_like_controls [of ?s1 st t]
      engage_comment_controls [of "snd ?r2" st pg t]
    by (blast intro: same_controls_trans)
  then show ?thesis
    by (simp add: engageWithTweetFast_Some [OF Some] Let_def same_controls_def
        updateLastActionTime_def)
qed

text \<open>Every call of the engine is visible in the trace, which only grows.\<close>

lemma likePostFast_trace: "\<exists>es. trace (snd (likePostFast t s)) = trace s @ es"
  by (simp add: likePostFast_def Let_def)

lemma getTweetTextFast_trace: "trace (snd (getTweetTextFast t s)) = trace s"
  by (simp add: getTweetTextFast_def Let_def split: option.splits)

lemma commentOnPostFast_trace: "\<exists>es. trace (snd (commentOnPostFast t s)) = trace s @ es"
  using getTweetTextFast_trace [of t s]
  by (cases "getTweetTextFast t s") (simp add: commentOnPostFast_def Let_def)

lemma engageWithTweetFast_trace:
  "\<exists>es. trace (snd (engageWithTweetFast pg t tid s)) = trace s @ Engage tid # es"
proof -
  let ?s1 = "engage_start pg t tid s"
  have t1: "\<exists>es. trace ?s1 = trace s @ Engage tid # es"
    by (simp add: engage_start_def)
  show ?thesis
  proof (cases "settings s")
    case None
    then show ?thesis
      using t1 by (auto simp: engageWithTweetFast_None)
  next
    case (Some st)
    let ?r2 = "engage_like st t ?s1"
    let ?r3 = "engage_comment st pg t (snd ?r2)"
    have t2: "\<exists>es. trace (snd ?r2) = trace ?s1 @ es"
      using likePostFast_trace [of t ?s1] by (simp add: engage_like_def)
    have t3: "\<exists>es. trace (snd ?r3) = trace (snd ?r2) @ es"
      using commentOnPostFast_trace [of t "snd ?r2"] by (simp add: engage_comment_def)
    have "\<exists>es. trace (snd ?r3) = trace s @ Engage tid # es"
      using t1 t2 t3 by auto
    then show ?thesis
      by (simp add: engageWithTweetFast_Some [OF Some] Let_def updateLastActionTime_def)
  qed
qed

section \<open>The drain loop: staleness\<close>

lemma drain_pop_shift: "drain_pop clock (Suc k) q = drain_pop (\<lambda>j. clock (Suc j)) k q"
  by (induction q arbitrary: k) simp_all

text \<open>
  Claim C3. Staleness eviction. Let the drain loop reach the head \<open>a\<close> of the queue at
  time \<open>t\<close>. If \<open>t - timestamp a > 30000\<close> the action is only removed: the state is otherwise
  unchanged, so the engine is not called and no counter moves, and the loop goes on to the
  next action at once. If \<open>t - timestamp a \<le> 30000\<close> the engine is called for the action
  (the trace grows by \<open>Engage\<close> for its id, then the engine's effects) and the pacing delay
  of 2000 ms (fast mode) or 5000 ms follows; the suspended drain waits in that delay before
  it pops again.
\<close>

theorem drain_staleness_eviction:
  assumes "actionQueue s = a # q"
  shows "(t - timestamp a > 30000 \<longrightarrow>
            drain_iteration t pg s = s\<lparr>actionQueue := q\<rparr>
          \<and> trace (drain_iteration t pg s) = trace s
          \<and> processedLikes (drain_iteration t pg s) = processedLikes s
          \<and> processedComments (drain_iteration t pg s) = processedComments s
          \<and> totalTweets (drain_iteration t pg s) = totalTweets s
          \<and> processedTweets (drain_iteration t pg s) = processedTweets s
          \<and> (clock 0 = t \<longrightarrow>
               drain_continue clock s =
               drain_continue (\<lambda>k. clock (Suc k)) (s\<lparr>actionQueue := q\<rparr>)))
       \<and> (t - timestamp a \<le> 30000 \<longrightarrow>
            drain_iteration t pg s =
              emit [Delay (pacing_delay s)]
                (snd (engageWithTweetFast pg (tweet a) (q_tweetId a) (s\<lparr>actionQueue := q\<rparr>)))
          \<and> (\<exists>es. trace (drain_iteration t pg s) =
                    trace s @ Engage (q_tweetId a) # es
                    @ [Delay (if fastMode s then 2000 else 5000)])
          \<and> (clock 0 = t \<longrightarrow>
               drain_continue clock s = (s\<lparr>actionQueue := q\<rparr>, Some (DrainEngaging a))
             \<and> drain_resume pg (DrainEngaging a) (s\<lparr>actionQueue := q\<rparr>) =
                 (drain_iteration t pg s, Some DrainPacing)))"
proof -
  let ?s1 = "s\<lparr>actionQueue := q\<rparr>"
  let ?e = "engageWithTweetFast pg (tweet a) (q_tweetId a) ?s1"
  have fm: "fastMode (snd ?e) = fastMode s"
    using engageWithTweetFast_controls [of ?s1 pg "tweet a" "q_tweetId a"]
    by (simp add: same_controls_def)
  have stale: "drain_iteration t pg s = ?s1" if "t - timestamp a > 30000"
    using that assms by (simp add: drain_iteration_def)
  have stale_fields:
    "trace (drain_iteration t pg s) = trace s
     \<and> processedLikes (drain_iteration t pg s) = processedLikes s
     \<and> processedComments (drain_iteration t pg s) = processedComments s
     \<and> totalTweets (drain_iteration t pg s) = totalTweets s
     \<and> processedTweets (drain_iteration t pg s) = processedTweets s"
    if "t - timestamp a > 30000"
    by (simp add: stale [OF that])
  have stale_c: "drain_continue clock s = drain_continue (\<lambda>k. clock (Suc k)) ?s1"
    if "t - timestamp a > 30000" "clock 0 = t"
    using that assms
    by (simp add: drain_continue_def drain_pop_shift split: prod.splits option.splits)
  have fresh: "drain_iteration t pg s = emit [Delay (pacing_delay s)] (snd ?e)"
    if "t - timestamp a \<le> 30000"
    using that assms fm by (simp add: drain_iteration_def pacing_delay_def case_prod_beta)
  have fresh_t: "\<exists>es. trace (drain_iteration t pg s) =
                    trace s @ Engage (q_tweetId a) # es
                    @ [Delay (if fastMode s then 2000 else 5000)]"
    if "t - timestamp a \<le> 30000"
    using engageWithTweetFast_trace [of pg "tweet a" "q_tweetId a" ?s1]
    by (auto simp: fresh [OF that] pacing_delay_def)
  have fresh_c: "drain_continue clock s = (?s1, Some (DrainEngaging a))"
    if "t - timestamp a \<le> 30000" "clock 0 = t"
    using that assms by (simp add: drain_continue_def)
  have fresh_r: "drain_resume pg (DrainEngaging a) ?s1 = (drain_iteration t pg s, Some DrainPacing)"
    if "t - timestamp a \<le> 30000"
    using fm by (simp add: drain_resume_def fresh [OF that] pacing_delay_def case_prod_beta)
  show ?thesis
    using stale stale_fields stale_c fresh fresh_t fresh_c fresh_r by blast
qed

text \<open>
  The theorem at an action enqueued at time 0: reached at 30001 ms it is dropped and nothing
  else changes; reached at 29999 ms the tweet is liked and the 2000 ms pacing delay follows,
  and so it is at 30000 ms.
\<close>

theorem drain_staleness_eviction_witness:
  "actionQueue queued = actA # [] \<and> 30001 - timestamp actA > 30000
   \<and> drain_iteration 30001 pageA queued = queued\<lparr>actionQueue := []\<rparr>
   \<and> trace (drain_iteration 30001 pageA queued) = trace queued
   \<and> processedLikes (drain_iteration 30001 pageA queued) = processedLikes queued
   \<and> 29999 - timestamp actA \<le> 30000
   \<and> drain_resume pageA (DrainEngaging actA) (queued\<lparr>actionQueue := []\<rparr>) =
       (drain_iteration 29999 pageA queued, Some DrainPacing)
   \<and> trace (drain_iteration 29999 pageA queued) =
       [ScheduleRun 500, Engage ''tweet_A'', Focus (LikeButton ''tweet_A''), Delay 100,
        Click (LikeButton ''tweet_A''), Delay 300, Delay 2000]
   \<and> processedLikes (drain_iteration 29999 pageA queued) = 1
   \<and> drain_iteration 30000 pageA queued = drain_iteration 29999 pageA queued"
proof -
  have q: "actionQueue queued = actA # []" by (simp add: queued_def)
  have old: "30001 - timestamp actA > 30000" by (simp add: actA_def)
  have new: "29999 - timestamp actA \<le> 30000" by (simp add: actA_def)
  note stale = drain_staleness_eviction [OF q, of 30001 pageA "\<lambda>k. 30001"]
  note fresh = drain_staleness_eviction [OF q, of 29999 pageA "\<lambda>k. 29999"]
  have a: "drain_iteration 30001 pageA queued = queued\<lparr>actionQueue := []\<rparr>
           \<and> trace (drain_iteration 30001 pageA queued) = trace queued
           \<and> processedLikes (drain_iteration 30001 pageA queued) = processedLikes queued"
    using stale old by blast
  have b: "drain_resume pageA (DrainEngaging actA) (queued\<lparr>actionQueue := []\<rparr>) =
           (drain_iteration 29999 pageA queued, Some DrainPacing)"
    using fresh new by simp
  have c: "trace (drain_iteration 29999 pageA queued) =
       [ScheduleRun 500, Engage ''tweet_A'', Focus (LikeButton ''tweet_A''), Delay 100,
        Click (LikeButton ''tweet_A''), Delay 300, Delay 2000]"
    by (simp add: drain_iteration_def queued_def actA_def ready_eval tweetA_def pageA_def
        user_settings_def engine_defs)
  have d: "processedLikes (drain_iteration 29999 pageA queued) = 1"
    by (simp add: drain_iteration_def queued_def actA_def ready_eval tweetA_def pageA_def
        user_settings_def engine_defs)
  have e: "drain_iteration 30000 pageA queued = drain_iteration 29999 pageA queued"
    by (simp add: drain_iteration_def queued_def actA_def)
  show ?thesis
    using q old new a b c d e by blast
qed

section \<open>Liking a tweet that is already liked\<close>

lemma like_times_liked:
  "like_button t \<Longrightarrow> unlike_marker t \<Longrightarrow>
   processedLikes (like_times n t s) = processedLikes s + n \<and> trace (like_times n t s) = trace s"
  by (induction n arbitrary: s) (simp_all add: likePostFast_def)

text \<open>
  Claim C4, as stated, fails. The like counter moves on every call on an already-liked tweet:
  two calls of likePostFast on the same liked tweet take \<^verbatim>\<open>processedLikes\<close> from 0 to 2.
  A tweet that bears the liked marker but shows no like button is not a success. And the
  script does call it twice for one tweet: when a timer calls runAutomation while the drain's
  engagement with the tweet waits after scrollIntoView, both engage with it, and the one
  liked tweet counts as two likes without a single click.
\<close>

theorem like_idempotent_counterexample:
  "like_button tweetA_liked \<and> unlike_marker tweetA_liked
   \<and> fst (likePostFast tweetA_liked ready)
   \<and> processedLikes (snd (likePostFast tweetA_liked ready)) = 1
   \<and> fst (likePostFast tweetA_liked (snd (likePostFast tweetA_liked ready)))
   \<and> processedLikes (snd (likePostFast tweetA_liked (snd (likePostFast tweetA_liked ready)))) = 2
   \<and> unlike_marker (tweetA_liked\<lparr>like_button := False\<rparr>)
   \<and> \<not> fst (likePostFast (tweetA_liked\<lparr>like_button := False\<rparr>) ready)
   \<and> processedLikes (globals (exec double_like_schedule (init_system (Some user_settings)))) = 2
   \<and> processedTweets (globals (exec double_like_schedule (init_system (Some user_settings))))
       = {''tweet_A''}
   \<and> filter is_click
         (trace (globals (exec double_like_schedule (init_system (Some user_settings))))) = []"
proof -
  have a: "like_button tweetA_liked \<and> unlike_marker tweetA_liked
   \<and> fst (likePostFast tweetA_liked ready)
   \<and> processedLikes (snd (likePostFast tweetA_liked ready)) = 1
   \<and> fst (likePostFast tweetA_liked (snd (likePostFast tweetA_liked ready)))
   \<and> processedLikes (snd (likePostFast tweetA_liked (snd (likePostFast tweetA_liked ready)))) = 2
   \<and> unlike_marker (tweetA_liked\<lparr>like_button := False\<rparr>)
   \<and> \<not> fst (likePostFast (tweetA_liked\<lparr>like_button := False\<rparr>) ready)"
    by (simp add: likePostFast_def tweetA_liked_def tweetA_def ready_eval)
  have b: "globals (exec double_like_schedule (init_system (Some user_settings))) =
     ready\<lparr>lastActionTime := 1000, processedTweets := {''tweet_A''}, totalTweets := 3,
           processedLikes := 2, isProcessingQueue := True,
           trace := [ScheduleRun 500, Engage ''tweet_A'', ScrollIntoView ''tweet_A'', Delay 500,
                     Delay 2000, Engage ''tweet_A'', ScrollIntoView ''tweet_A'', Delay 500]\<rparr>"
    unfolding double_like_schedule_def init_eval
    by (simp add: ready_eval processTweetsQuickly_def processActionQueue_def drain_continue_def
        drain_resume_def runAutomation_begin_def cycle_try_def runAutomation_resume_def
        cycle_finally_def remove_nth_def page_low_def pageA_def tweetA_liked_def tweetA_def
        user_settings_def engine_defs)
  show ?thesis
    using a by (simp add: b ready_eval)
qed

text \<open>
  Claim C4, amended. For a tweet that shows both the like button and the liked marker,
  likePostFast returns success without any effect on the page (so without a click) and adds
  one to the like counter, on every call: \<open>n\<close> calls add \<open>n\<close>. Without the like button it
  returns false and changes nothing, marker or not. The first script's likePost behaves the
  same way once the like button is found at the first query or at the retry: success, no
  click, one more like per call; when both queries fail it returns false after the one-second
  wait.
\<close>

theorem like_already_liked:
  "(like_button t \<and> unlike_marker t \<longrightarrow>
      likePostFast t s = (True, s\<lparr>processedLikes := processedLikes s + 1\<rparr>)
    \<and> trace (snd (likePostFast t s)) = trace s
    \<and> processedLikes (like_times n t s) = processedLikes s + n
    \<and> trace (like_times n t s) = trace s)
   \<and> (\<not> like_button t \<longrightarrow> likePostFast t s = (False, s))
   \<and> ((like_button t \<or> like_button_retry t) \<and> unlike_marker t \<longrightarrow>
        fst (likePost t s')
      \<and> processedLikes (snd (likePost t s')) = processedLikes s' + 1
      \<and> \<not> list_ex is_click (drop (length (trace s')) (trace (snd (likePost t s'))))
      \<and> processedLikes (snd (likePost t (snd (likePost t s')))) = processedLikes s' + 2)
   \<and> (\<not> like_button t \<and> \<not> like_button_retry t \<longrightarrow>
        likePost t s' = (False, emit [Delay 1000] s'))"
proof -
  have fast: "likePostFast t s = (True, s\<lparr>processedLikes := processedLikes s + 1\<rparr>)
    \<and> trace (snd (likePostFast t s)) = trace s"
    if "like_button t" "unlike_marker t"
    using that by (simp add: likePostFast_def)
  have absent: "likePostFast t s = (False, s)" if "\<not> like_button t"
    using that by (simp add: likePostFast_def)
  have orig: "fst (likePost t s')
      \<and> processedLikes (snd (likePost t s')) = processedLikes s' + 1
      \<and> \<not> list_ex is_click (drop (length (trace s')) (trace (snd (likePost t s'))))
      \<and> processedLikes (snd (likePost t (snd (likePost t s')))) = processedLikes s' + 2"
    if "like_button t \<or> like_button_retry t" "unlike_marker t"
    using that by (auto simp: likePost_def Let_def)
  have orig_absent: "likePost t s' = (False, emit [Delay 1000] s')"
    if "\<not> like_button t" "\<not> like_button_retry t"
    using that by (simp add: likePost_def Let_def)
  show ?thesis
    using fast absent orig orig_absent like_times_liked [of t n s] by blast
qed

text \<open>The theorem at the liked tweet, with its like button and without it.\<close>

theorem like_already_liked_witness:
  "like_button tweetA_liked \<and> unlike_marker tweetA_liked
   \<and> likePostFast tweetA_liked ready = (True, ready\<lparr>processedLikes := processedLikes ready + 1\<rparr>)
   \<and> trace (snd (likePostFast tweetA_liked ready)) = trace ready
   \<and> processedLikes (like_times 5 tweetA_liked ready) = processedLikes ready + 5
   \<and> trace (like_times 5 tweetA_liked ready) = trace ready
   \<and> fst (likePost tweetA_liked ready)
   \<and> processedLikes (snd (likePost tweetA_liked (snd (likePost tweetA_liked ready))))
       = processedLikes ready + 2
   \<and> \<not> like_button (tweetA_liked\<lparr>like_button := False\<rparr>)
   \<and> likePostFast (tweetA_liked\<lparr>like_button := False\<rparr>) ready = (False, ready)
   \<and> \<not> like_button_retry (tweetA_liked\<lparr>like_button := False, like_button_retry := False\<rparr>)
   \<and> likePost (tweetA_liked\<lparr>like_button := False, like_button_retry := False\<rparr>) ready
       = (False, emit [Delay 1000] ready)"
proof -
  have h: "like_button tweetA_liked" "unlike_marker tweetA_liked"
    by (simp_all add: tweetA_liked_def tweetA_def)
  have n: "\<not> like_button (tweetA_liked\<lparr>like_button := False\<rparr>)"
          "\<not> like_button (tweetA_liked\<lparr>like_button := False, like_button_retry := False\<rparr>)"
          "\<not> like_button_retry (tweetA_liked\<lparr>like_button := False, like_button_retry := False\<rparr>)"
    by simp_all
  note a = like_already_liked [of tweetA_liked ready 5 ready]
  note b = like_already_liked [of "tweetA_liked\<lparr>like_button := False\<rparr>" ready 5 ready]
  note c = like_already_liked
             [of "tweetA_liked\<lparr>like_button := False, like_button_retry := False\<rparr>" ready 5 ready]
  show ?thesis
    using a b c h n by blast
qed

section \<open>The seen counter\<close>

lemma likePostFast_totalTweets: "totalTweets (snd (likePostFast t s)) = totalTweets s"
  by (simp add: likePostFast_def Let_def)

lemma getTweetTextFast_totalTweets: "totalTweets (snd (getTweetTextFast t s)) = totalTweets s"
  by (simp add: getTweetTextFast_def Let_def split: option.splits)

lemma commentOnPostFast_totalTweets: "totalTweets (snd (commentOnPostFast t s)) = totalTweets s"
  using getTweetTextFast_totalTweets [of t s]
  by (cases "getTweetTextFast t s") (simp add: commentOnPostFast_def Let_def)

lemma engageWithTweetFast_totalTweets:
  "totalTweets (snd (engageWithTweetFast pg t tid s)) =
   totalTweets s + (if fst (engageWithTweetFast pg t tid s) then 1 else 0)"
proof (cases "settings s")
  case None
  then show ?thesis
    by (simp add: engageWithTweetFast_None engage_start_def)
next
  case (Some st)
  let ?s1 = "engage_start pg t tid s"
  let ?r2 = "engage_like st t ?s1"
  let ?r3 = "engage_comment st pg t (snd ?r2)"
  have "totalTweets ?s1 = totalTweets s" by (simp add: engage_start_def)
  moreover have "totalTweets (snd ?r2) = totalTweets ?s1"
    by (simp add: engage_like_def likePostFast_totalTweets)
  moreover have "totalTweets (snd ?r3) = totalTweets (snd ?r2)"
    by (simp add: engage_comment_def commentOnPostFast_totalTweets)
  ultimately show ?thesis
    by (simp add: engageWithTweetFast_Some [OF Some] Let_def updateLastActionTime_def)
qed

lemmas cycle_defs = runAutomation_def runAutomation_begin_def cycle_try_def
  runAutomation_resume_def cycle_finally_def cycle_catch_def

lemmas orig_defs = runAutomation_orig_def engageWithTweet_def likePost_def commentOnPost_def
  getTweetText_def shouldComment_def smoothScroll_def reset_session_def emit_def Let_def

text \<open>
  Claim C9, as stated, fails. One cycle of the optimized script on a page with a single
  tweet, which it likes, leaves \<^verbatim>\<open>totalTweets\<close> at 2: the scan set it to 1 and the
  engagement incremented it.
\<close>

theorem seen_counter_counterexample:
  "settings ready \<noteq> None \<and> \<not> isRunning ready \<and> automationEnabled ready
   \<and> length (tweets pageA) = 1
   \<and> totalTweets (runAutomation pageA ready) = 2"
  by (simp add: cycle_defs ready_eval pageA_def tweetA_def user_settings_def engine_defs)

text \<open>What each step of the event system does to the counter.\<close>

lemma onMessage_totalTweets: "totalTweets (onMessage m pg s) = totalTweets s"
  by (cases m)
     (simp_all add: onMessage_def toggleAutomation_def startAutomationFast_def stopAutomation_def
        handleGroqResponse_def handleCommentError_def findReplyButton_def quickScroll_def Let_def)

lemma runAutomation_begin_totalTweets:
  "totalTweets (fst (runAutomation_begin pg s)) =
     (if settings s \<noteq> None \<and> \<not> isRunning s \<and> automationEnabled s
         \<and> throw_at pg \<noteq> Some ThrowAtQuery
      then length (tweets pg) else totalTweets s)"
  by (auto simp: runAutomation_begin_def cycle_try_def cycle_finally_def cycle_catch_def Let_def
      split: option.splits)

lemma runAutomation_resume_totalTweets:
  "totalTweets (runAutomation_resume pg task s) =
     totalTweets s
     + (case task of
          AwaitEngage t \<Rightarrow> if fst (engageWithTweetFast pg t (getTweetId t) s) then 1 else 0
        | AwaitScrollDelay \<Rightarrow> 0)"
  by (cases task)
     (simp_all add: runAutomation_resume_def cycle_finally_def engageWithTweetFast_totalTweets)

lemma drain_continue_totalTweets: "totalTweets (fst (drain_continue clock s)) = totalTweets s"
  by (simp add: drain_continue_def split: prod.splits option.splits)

lemma processTweetsQuickly_totalTweets:
  "totalTweets (fst (processTweetsQuickly pg s)) = totalTweets s"
  by (simp add: processTweetsQuickly_def processActionQueue_def drain_continue_totalTweets Let_def
      split: option.splits)

lemma drain_resume_totalTweets:
  "totalTweets (fst (drain_resume pg task s)) =
     totalTweets s
     + (case task of
          DrainEngaging a \<Rightarrow>
            if fst (engageWithTweetFast pg (tweet a) (q_tweetId a) s) then 1 else 0
        | DrainPacing \<Rightarrow> 0)"
  by (cases task)
     (simp_all add: drain_resume_def drain_continue_totalTweets case_prod_beta
        engageWithTweetFast_totalTweets)

lemma step_totalTweets:
  "totalTweets (globals (step e sys)) =
     (case scan_count e sys of
        Some c \<Rightarrow> c
      | None \<Rightarrow> totalTweets (globals sys) + (if completed_action e sys then 1 else 0))"
proof (cases e)
  case (OnMessage m pg)
  then show ?thesis
    by (simp add: scan_count_def completed_action_def onMessage_totalTweets)
next
  case (CallRunAutomation pg)
  then show ?thesis
    using runAutomation_begin_totalTweets [of pg "globals sys"]
    by (cases "runAutomation_begin pg (globals sys)")
       (auto simp: scan_count_def completed_action_def split: option.splits)
next
  case (ResumeCycle k pg)
  then show ?thesis
    by (auto simp: scan_count_def completed_action_def runAutomation_resume_totalTweets
        split: cycle_task.splits)
next
  case (CallProcessTweetsQuickly pg)
  then show ?thesis
    using processTweetsQuickly_totalTweets [of pg "globals sys"]
    by (cases "processTweetsQuickly pg (globals sys)")
       (auto simp: scan_count_def completed_action_def split: option.splits)
next
  case (ResumeDrain k pg)
  then show ?thesis
    using drain_resume_totalTweets [of pg "drains sys ! k" "globals sys"]
    by (cases "drain_resume pg (drains sys ! k) (globals sys)")
       (auto simp: scan_count_def completed_action_def split: option.splits drain_task.splits)
qed

lemma exec_totalTweets:
  "no_scan es sys \<Longrightarrow>
   totalTweets (globals (exec es sys)) = totalTweets (globals sys) + engagements es sys"
  by (induction es arbitrary: sys) (simp_all add: step_totalTweets)

lemma exec_append: "exec (es @ es') sys = exec es' (exec es sys)"
  by (induction es arbitrary: sys) simp_all

lemmas system_defs = processTweetsQuickly_def processActionQueue_def drain_continue_def
  drain_resume_def runAutomation_begin_def cycle_try_def runAutomation_resume_def
  cycle_finally_def remove_nth_def scan_count_def completed_action_def

text \<open>
  Claim C9, amended. The counter has two writers. A call of runAutomation that passes its
  guard and whose document query does not throw sets \<^verbatim>\<open>totalTweets\<close> to the number of tweet
  articles in the document (all of them, the count is not filtered by visibility). Every call
  of engageWithTweetFast that takes an action adds one, whether a cycle awaits it or the
  drain of the action queue, and a call that takes none leaves it. No other step of the
  event system changes it. So after any run the counter is the count set by the most recent
  cycle start plus the number of action-taking engagements completed since then, and
  without a cycle start it is its value at the start of the run plus that number. For a
  cycle that nothing interleaves with this is the number of articles, plus one if the
  cycle's engagement took an action.
\<close>

theorem seen_counter_semantics:
  "totalTweets (snd (engageWithTweetFast pg t tid s)) =
     totalTweets s + (if fst (engageWithTweetFast pg t tid s) then 1 else 0)
   \<and> (settings s \<noteq> None \<and> \<not> isRunning s \<and> automationEnabled s \<and> throw_at pg = None \<longrightarrow>
        totalTweets (runAutomation pg s) =
          length (tweets pg)
          + (case cycle_candidate (innerHeight pg) (processedTweets s) (tweets pg) of
               None \<Rightarrow> 0
             | Some t \<Rightarrow>
                 if fst (engageWithTweetFast pg t (getTweetId t)
                          (s\<lparr>isRunning := True, totalTweets := length (tweets pg)\<rparr>))
                 then 1 else 0))
   \<and> (settings (globals sys) \<noteq> None \<and> \<not> isRunning (globals sys)
        \<and> automationEnabled (globals sys) \<and> throw_at pg \<noteq> Some ThrowAtQuery \<longrightarrow>
        totalTweets (globals (step (CallRunAutomation pg) sys)) = length (tweets pg))
   \<and> (scan_count e sys = None \<longrightarrow>
        totalTweets (globals (step e sys)) =
          totalTweets (globals sys) + (if completed_action e sys then 1 else 0))
   \<and> (no_scan evs sys \<longrightarrow>
        totalTweets (globals (exec evs sys)) = totalTweets (globals sys) + engagements evs sys)
   \<and> (settings (globals (exec pre sys)) \<noteq> None \<and> \<not> isRunning (globals (exec pre sys))
        \<and> automationEnabled (globals (exec pre sys)) \<and> throw_at pg \<noteq> Some ThrowAtQuery
        \<and> no_scan post (exec (pre @ [CallRunAutomation pg]) sys) \<longrightarrow>
        totalTweets (globals (exec (pre @ CallRunAutomation pg # post) sys)) =
          length (tweets pg) + engagements post (exec (pre @ [CallRunAutomation pg]) sys))"
proof -
  have a: "totalTweets (runAutomation pg s) =
          length (tweets pg)
          + (case cycle_candidate (innerHeight pg) (processedTweets s) (tweets pg) of
               None \<Rightarrow> 0
             | Some t \<Rightarrow>
                 if fst (engageWithTweetFast pg t (getTweetId t)
                          (s\<lparr>isRunning := True, totalTweets := length (tweets pg)\<rparr>))
                 then 1 else 0)"
    if "settings s \<noteq> None" "\<not> isRunning s" "automationEnabled s" "throw_at pg = None"
    using that
    by (auto simp: runAutomation_def runAutomation_begin_def cycle_try_def Let_def
        runAutomation_resume_def cycle_finally_def engageWithTweetFast_totalTweets
        split: option.splits)
  have b: "totalTweets (globals (step (CallRunAutomation pg) sys')) = length (tweets pg)"
    if "settings (globals sys') \<noteq> None" "\<not> isRunning (globals sys')"
      "automationEnabled (globals sys')" "throw_at pg \<noteq> Some ThrowAtQuery" for sys'
    using that step_totalTweets [of "CallRunAutomation pg" sys'] by (simp add: scan_count_def)
  have c: "totalTweets (globals (step e sys)) =
          totalTweets (globals sys) + (if completed_action e sys then 1 else 0)"
    if "scan_count e sys = None"
    using that step_totalTweets [of e sys] by simp
  have d: "totalTweets (globals (exec (pre @ CallRunAutomation pg # post) sys)) =
          length (tweets pg) + engagements post (exec (pre @ [CallRunAutomation pg]) sys)"
    if g: "settings (globals (exec pre sys)) \<noteq> None" "\<not> isRunning (globals (exec pre sys))"
      "automationEnabled (globals (exec pre sys))" "throw_at pg \<noteq> Some ThrowAtQuery"
      and n: "no_scan post (exec (pre @ [CallRunAutomation pg]) sys)"
  proof -
    have "exec (pre @ CallRunAutomation pg # post) sys =
          exec post (exec (pre @ [CallRunAutomation pg]) sys)"
      by (simp add: exec_append)
    moreover have "totalTweets (globals (exec (pre @ [CallRunAutomation pg]) sys)) =
          length (tweets pg)"
      using b [OF g] by (simp add: exec_append)
    ultimately show ?thesis
      using exec_totalTweets [OF n] by simp
  qed
  show ?thesis
    apply (intro conjI impI)
    subgoal by (rule engageWithTweetFast_totalTweets)
    subgoal using a by blast
    subgoal using b by blast
    subgoal using c by blast
    subgoal using exec_totalTweets by blast
    subgoal using d by blast
    done
qed


text \<open>
  The theorem at the cycle of the counterexample, and at the schedule on the page with one
  tweet in which the drain and a cycle both engage with it: the cycle start sets the counter
  to 1, each of the two engagements adds one, and the run ends with 3. Without the cycle the
  scan and the drain's engagement leave the counter at 1.
\<close>

theorem seen_counter_semantics_witness:
  "settings ready \<noteq> None \<and> \<not> isRunning ready \<and> automationEnabled ready
   \<and> throw_at pageA = None
   \<and> cycle_candidate (innerHeight pageA) (processedTweets ready) (tweets pageA) = Some tweetA
   \<and> fst (engageWithTweetFast pageA tweetA (getTweetId tweetA)
            (ready\<lparr>isRunning := True, totalTweets := length (tweets pageA)\<rparr>))
   \<and> totalTweets (runAutomation pageA ready) = length (tweets pageA) + 1
   \<and> settings (globals (exec [CallProcessTweetsQuickly page_low]
                            (init_system (Some user_settings)))) \<noteq> None
   \<and> \<not> isRunning (globals (exec [CallProcessTweetsQuickly page_low]
                            (init_system (Some user_settings))))
   \<and> automationEnabled (globals (exec [CallProcessTweetsQuickly page_low]
                            (init_system (Some user_settings))))
   \<and> throw_at page_low \<noteq> Some ThrowAtQuery
   \<and> no_scan [ResumeDrain 0 page_low, ResumeCycle 0 page_low]
        (exec ([CallProcessTweetsQuickly page_low] @ [CallRunAutomation page_low])
           (init_system (Some user_settings)))
   \<and> engagements [ResumeDrain 0 page_low, ResumeCycle 0 page_low]
        (exec ([CallProcessTweetsQuickly page_low] @ [CallRunAutomation page_low])
           (init_system (Some user_settings))) = 2
   \<and> length (tweets page_low) = 1
   \<and> totalTweets (globals (exec double_like_schedule (init_system (Some user_settings)))) = 3
   \<and> totalTweets (globals (step (CallRunAutomation page_low)
        (exec [CallProcessTweetsQuickly page_low] (init_system (Some user_settings))))) = 1
   \<and> scan_count (ResumeDrain 0 page_low)
        (exec [CallProcessTweetsQuickly page_low, CallRunAutomation page_low]
           (init_system (Some user_settings))) = None
   \<and> completed_action (ResumeDrain 0 page_low)
        (exec [CallProcessTweetsQuickly page_low, CallRunAutomation page_low]
           (init_system (Some user_settings)))
   \<and> totalTweets (globals (step (ResumeDrain 0 page_low)
        (exec [CallProcessTweetsQuickly page_low, CallRunAutomation page_low]
           (init_system (Some user_settings))))) = 2
   \<and> no_scan [CallProcessTweetsQuickly page_low, ResumeDrain 0 page_low]
        (init_system (Some user_settings))
   \<and> totalTweets (globals (init_system (Some user_settings))) = 0
   \<and> engagements [CallProcessTweetsQuickly page_low, ResumeDrain 0 page_low]
        (init_system (Some user_settings)) = 1
   \<and> totalTweets (globals (exec [CallProcessTweetsQuickly page_low, ResumeDrain 0 page_low]
        (init_system (Some user_settings)))) = 1"
proof -
  let ?init = "init_system (Some user_settings)"
  let ?pre = "[CallProcessTweetsQuickly page_low]"
  let ?post = "[ResumeDrain 0 page_low, ResumeCycle 0 page_low]"
  let ?mid = "exec [CallProcessTweetsQuickly page_low, CallRunAutomation page_low] ?init"
  let ?quiet = "[CallProcessTweetsQuickly page_low, ResumeDrain 0 page_low]"
  have h: "settings ready \<noteq> None" "\<not> isRunning ready" "automationEnabled ready"
    "throw_at pageA = None"
    by (simp_all add: ready_eval pageA_def)
  have c: "cycle_candidate (innerHeight pageA) (processedTweets ready) (tweets pageA) = Some tweetA"
    by (simp add: ready_eval pageA_def tweetA_def getTweetId_def)
  have e: "fst (engageWithTweetFast pageA tweetA (getTweetId tweetA)
            (ready\<lparr>isRunning := True, totalTweets := length (tweets pageA)\<rparr>))"
    by (simp add: ready_eval pageA_def tweetA_def user_settings_def engine_defs)
  note alone = seen_counter_semantics
    [where pg = pageA and t = tweetA and tid = "getTweetId tweetA" and s = ready
       and sys = ?init and e = "OnMessage Ping pageA" and evs = "[]" and pre = "[]"
       and post = "[]"]
  have r: "totalTweets (runAutomation pageA ready) = length (tweets pageA) + 1"
    using alone h c e by simp
  have g: "settings (globals (exec ?pre ?init)) \<noteq> None"
    "\<not> isRunning (globals (exec ?pre ?init))"
    "automationEnabled (globals (exec ?pre ?init))"
    "throw_at page_low \<noteq> Some ThrowAtQuery"
    "length (tweets page_low) = 1"
    unfolding init_eval
    by (simp_all add: ready_eval system_defs page_low_def pageA_def tweetA_liked_def tweetA_def
        user_settings_def engine_defs)
  have n: "no_scan ?post (exec (?pre @ [CallRunAutomation page_low]) ?init)"
    unfolding init_eval
    by (simp add: ready_eval system_defs page_low_def pageA_def tweetA_liked_def tweetA_def
        user_settings_def engine_defs)
  have k: "engagements ?post (exec (?pre @ [CallRunAutomation page_low]) ?init) = 2"
    unfolding init_eval
    by (simp add: ready_eval system_defs page_low_def pageA_def tweetA_liked_def tweetA_def
        user_settings_def engine_defs)
  note both = seen_counter_semantics
    [where pg = page_low and t = tweetA and tid = "getTweetId tweetA" and s = ready
       and sys = ?init and e = "OnMessage Ping pageA" and evs = "[]" and pre = ?pre
       and post = ?post]
  have run: "totalTweets (globals (exec (?pre @ CallRunAutomation page_low # ?post) ?init)) =
      length (tweets page_low) + engagements ?post (exec (?pre @ [CallRunAutomation page_low]) ?init)"
    using both g(1-4) n by blast
  have sum: "length (tweets page_low)
      + engagements ?post (exec (?pre @ [CallRunAutomation page_low]) ?init) = 3"
    unfolding g(5) k by simp
  have sched: "double_like_schedule = ?pre @ CallRunAutomation page_low # ?post"
    by (simp add: double_like_schedule_def)
  have three: "totalTweets (globals (exec double_like_schedule ?init)) = 3"
    unfolding sched by (rule trans [OF run sum])
  note start = seen_counter_semantics
    [where pg = page_low and t = tweetA and tid = "getTweetId tweetA" and s = ready
       and sys = "exec ?pre ?init" and e = "OnMessage Ping pageA" and evs = "[]" and pre = "[]"
       and post = "[]"]
  have "totalTweets (globals (step (CallRunAutomation page_low) (exec ?pre ?init))) =
      length (tweets page_low)"
    using start g(1-4) by blast
  then have one: "totalTweets (globals (step (CallRunAutomation page_low) (exec ?pre ?init))) = 1"
    by (simp only: g(5))
  have q: "scan_count (ResumeDrain 0 page_low) ?mid = None"
    by (simp add: scan_count_def)
  have a: "completed_action (ResumeDrain 0 page_low) ?mid"
    unfolding init_eval
    by (simp add: ready_eval system_defs page_low_def pageA_def tweetA_liked_def tweetA_def
        user_settings_def engine_defs)
  have m: "totalTweets (globals ?mid) = 1"
    using one by (simp only: exec.simps)
  note drain = seen_counter_semantics
    [where pg = page_low and t = tweetA and tid = "getTweetId tweetA" and s = ready
       and sys = ?mid and e = "ResumeDrain 0 page_low" and evs = "[]" and pre = "[]"
       and post = "[]"]
  have resume: "totalTweets (globals (step (ResumeDrain 0 page_low) ?mid)) =
      totalTweets (globals ?mid) + (if completed_action (ResumeDrain 0 page_low) ?mid then 1 else 0)"
    using drain q by blast
  have sum2: "totalTweets (globals ?mid)
      + (if completed_action (ResumeDrain 0 page_low) ?mid then 1 else 0) = 2"
    unfolding m using a by simp
  have two: "totalTweets (globals (step (ResumeDrain 0 page_low) ?mid)) = 2"
    by (rule trans [OF resume sum2])
  have qn: "no_scan ?quiet ?init"
    by (simp add: scan_count_def)
  have z: "totalTweets (globals ?init) = 0"
    unfolding init_eval by (simp add: ready_eval)
  have qk: "engagements ?quiet ?init = 1"
    unfolding init_eval
    by (simp add: ready_eval system_defs page_low_def pageA_def tweetA_liked_def tweetA_def
        user_settings_def engine_defs)
  note quiet = seen_counter_semantics
    [where pg = page_low and t = tweetA and tid = "getTweetId tweetA" and s = ready
       and sys = ?init and e = "OnMessage Ping pageA" and evs = ?quiet and pre = "[]"
       and post = "[]"]
  have calm: "totalTweets (globals (exec ?quiet ?init)) =
      totalTweets (globals ?init) + engagements ?quiet ?init"
    using quiet qn by blast
  have sum3: "totalTweets (globals ?init) + engagements ?quiet ?init = 1"
    unfolding z qk by simp
  have qt: "totalTweets (globals (exec ?quiet ?init)) = 1"
    by (rule trans [OF calm sum3])
  show ?thesis
    apply (intro conjI)
    subgoal by (rule h)
    subgoal by (rule h)
    subgoal by (rule h)
    subgoal by (rule h)
    subgoal by (rule c)
    subgoal by (rule e)
    subgoal by (rule r)
    subgoal by (rule g)
    subgoal by (rule g)
    subgoal by (rule g)
    subgoal by (rule g)
    subgoal by (rule n)
    subgoal by (rule k)
    subgoal by (rule g)
    subgoal by (rule three)
    subgoal by (rule one)
    subgoal by (rule q)
    subgoal by (rule a)
    subgoal by (rule two)
    subgoal by (rule qn)
    subgoal by (rule z)
    subgoal by (rule qk)
    subgoal by (rule qt)
    done
qed

section \<open>The end of the feed\<close>

lemma after_like_eval:
  "after_like = ready\<lparr>lastActionTime := 1000, processedTweets := {''tweet_A''},
      totalTweets := 2, processedLikes := 1, trace := [ScheduleRun 500, Engage ''tweet_A'']\<rparr>"
  by (simp add: after_like_def cycle_defs ready_eval pageA_liked_def pageA_def tweetA_liked_def
      tweetA_def user_settings_def engine_defs)

lemma after_like_orig_eval:
  "after_like_orig = ready_orig\<lparr>lastActionTime := 1000, processedTweets := {''tweet_A''},
      totalTweets := 1, processedLikes := 1,
      trace := [ScrollIntoView ''tweet_A'', Delay 2000, Engage ''tweet_A'',
                ScrollIntoView ''tweet_A'', Delay 1000, DelayBetween 30000 35000]\<rparr>"
  by (simp add: after_like_orig_def ready_orig_def pageA_liked_def pageA_def tweetA_liked_def
      tweetA_def user_settings_def orig_defs)

text \<open>
  Claim C5, as stated, fails for the optimized script. After a cycle that liked the only
  tweet, a second cycle finds nothing to process while the page is scrolled to the end of
  the document; the like counter is still 1, the processed set still holds the tweet, and no
  reload is scheduled.
\<close>

theorem feed_exhaustion_counterexample:
  "settings after_like \<noteq> None \<and> \<not> isRunning after_like \<and> automationEnabled after_like
   \<and> cycle_candidate (innerHeight page_end) (processedTweets after_like) (tweets page_end) = None
   \<and> scrollY page_end \<ge> scrollHeight page_end - innerHeight page_end
   \<and> processedLikes after_like = 1
   \<and> processedLikes (runAutomation page_end after_like) = 1
   \<and> processedTweets (runAutomation page_end after_like) = {''tweet_A''}
   \<and> ScheduleReload 5000 \<notin> set (trace (runAutomation page_end after_like))"
  by (simp add: after_like_eval cycle_defs ready_eval page_end_def pageA_liked_def pageA_def
      tweetA_liked_def tweetA_def getTweetId_def emit_def)

text \<open>
  Claim C5, amended. In the first content script, a cycle that passes the guard, processes no
  tweet and finds the scroll position at the end of the document (smoothScroll returns
  false) resets the session: the three counters are zero, the processed set is empty (so
  every id can be processed again), and the reload is scheduled 5000 ms later as the last
  effect. In the optimized content script a cycle that finds no tweet to engage with only
  sets the seen counter to the number of tweet articles, scrolls down by 85% of the viewport
  height and waits 1500 ms, wherever the scroll position is: the like and comment counters
  and the processed set are kept and nothing is reloaded.
\<close>

theorem feed_exhaustion_reset:
  fixes s :: "'a script_state_scheme" and f :: fast_state
  shows
  "(settings s \<noteq> None \<and> \<not> isRunning s \<and> automationEnabled s
    \<and> \<not> fst (process_tweets pg 0 (filter (\<lambda>t. rect_height t > 0 \<and> rect_width t > 0) (tweets pg))
               (s\<lparr>isRunning := True,
                  totalTweets := length (filter (\<lambda>t. rect_height t > 0 \<and> rect_width t > 0) (tweets pg))\<rparr>))
    \<and> scrollY pg \<ge> scrollHeight pg - innerHeight pg \<longrightarrow>
      totalTweets (runAutomation_orig pg s) = 0
    \<and> processedLikes (runAutomation_orig pg s) = 0
    \<and> processedComments (runAutomation_orig pg s) = 0
    \<and> processedTweets (runAutomation_orig pg s) = {}
    \<and> \<not> isRunning (runAutomation_orig pg s)
    \<and> trace (runAutomation_orig pg s) =
        trace (snd (process_tweets pg 0 (filter (\<lambda>t. rect_height t > 0 \<and> rect_width t > 0) (tweets pg))
               (s\<lparr>isRunning := True,
                  totalTweets := length (filter (\<lambda>t. rect_height t > 0 \<and> rect_width t > 0) (tweets pg))\<rparr>)))
        @ [ScheduleReload 5000])
   \<and> (settings f \<noteq> None \<and> \<not> isRunning f \<and> automationEnabled f \<and> throw_at pg' = None
      \<and> cycle_candidate (innerHeight pg') (processedTweets f) (tweets pg') = None \<longrightarrow>
        runAutomation pg' f =
          emit [ScrollBy (of_int (innerHeight pg') * 0.85), Delay 1500]
            (f\<lparr>totalTweets := length (tweets pg')\<rparr>))"
proof -
  have a: "runAutomation pg' f =
          emit [ScrollBy (of_int (innerHeight pg') * 0.85), Delay 1500]
            (f\<lparr>totalTweets := length (tweets pg')\<rparr>)"
    if "settings f \<noteq> None" "\<not> isRunning f" "automationEnabled f" "throw_at pg' = None"
      "cycle_candidate (innerHeight pg') (processedTweets f) (tweets pg') = None"
    using that by (auto simp: cycle_defs emit_def Let_def)
  show ?thesis
    using a by (auto simp: runAutomation_orig_def smoothScroll_def reset_session_def Let_def
        case_prod_beta)
qed

text \<open>
  The theorem after one cycle that liked the only tweet, on the page scrolled to its end.
  In the first script the session is reset and the next cycle processes the same tweet again.
\<close>

theorem feed_exhaustion_reset_witness:
  "settings after_like_orig \<noteq> None \<and> \<not> isRunning after_like_orig
   \<and> automationEnabled after_like_orig
   \<and> processedTweets after_like_orig = {''tweet_A''} \<and> processedLikes after_like_orig = 1
   \<and> scrollY page_end \<ge> scrollHeight page_end - innerHeight page_end
   \<and> totalTweets (runAutomation_orig page_end after_like_orig) = 0
   \<and> processedLikes (runAutomation_orig page_end after_like_orig) = 0
   \<and> processedComments (runAutomation_orig page_end after_like_orig) = 0
   \<and> processedTweets (runAutomation_orig page_end after_like_orig) = {}
   \<and> last (trace (runAutomation_orig page_end after_like_orig)) = ScheduleReload 5000
   \<and> processedTweets (runAutomation_orig pageA_liked (runAutomation_orig page_end after_like_orig))
       = {''tweet_A''}
   \<and> cycle_candidate (innerHeight page_end) (processedTweets after_like) (tweets page_end) = None
   \<and> runAutomation page_end after_like =
       emit [ScrollBy (of_int (innerHeight page_end) * 0.85), Delay 1500]
         (after_like\<lparr>totalTweets := length (tweets page_end)\<rparr>)"
proof -
  let ?vis = "filter (\<lambda>t. rect_height t > 0 \<and> rect_width t > 0) (tweets page_end)"
  have h: "settings after_like_orig \<noteq> None" "\<not> isRunning after_like_orig"
    "automationEnabled after_like_orig" "processedTweets after_like_orig = {''tweet_A''}"
    "processedLikes after_like_orig = 1"
    by (simp_all add: after_like_orig_eval ready_orig_def)
  have e: "scrollY page_end \<ge> scrollHeight page_end - innerHeight page_end"
    by (simp add: page_end_def pageA_liked_def pageA_def)
  have n: "\<not> fst (process_tweets page_end 0 ?vis
               (after_like_orig\<lparr>isRunning := True, totalTweets := length ?vis\<rparr>))"
    by (simp add: after_like_orig_eval ready_orig_def page_end_def pageA_liked_def pageA_def
        tweetA_liked_def tweetA_def)
  have g: "settings after_like \<noteq> None" "\<not> isRunning after_like" "automationEnabled after_like"
    "throw_at page_end = None"
    "cycle_candidate (innerHeight page_end) (processedTweets after_like) (tweets page_end) = None"
    by (simp_all add: after_like_eval ready_eval page_end_def pageA_liked_def pageA_def
        tweetA_liked_def tweetA_def getTweetId_def)
  note t = feed_exhaustion_reset [of after_like_orig page_end after_like page_end]
  have r: "totalTweets (runAutomation_orig page_end after_like_orig) = 0
    \<and> processedLikes (runAutomation_orig page_end after_like_orig) = 0
    \<and> processedComments (runAutomation_orig page_end after_like_orig) = 0
    \<and> processedTweets (runAutomation_orig page_end after_like_orig) = {}
    \<and> trace (runAutomation_orig page_end after_like_orig) =
        trace (snd (process_tweets page_end 0 ?vis
               (after_like_orig\<lparr>isRunning := True, totalTweets := length ?vis\<rparr>)))
        @ [ScheduleReload 5000]"
    using t h(1-3) e n by blast
  then have l: "last (trace (runAutomation_orig page_end after_like_orig)) = ScheduleReload 5000"
    by simp
  have o: "runAutomation page_end after_like =
       emit [ScrollBy (of_int (innerHeight page_end) * 0.85), Delay 1500]
         (after_like\<lparr>totalTweets := length (tweets page_end)\<rparr>)"
    using t g by blast
  have again: "processedTweets (runAutomation_orig pageA_liked (runAutomation_orig page_end after_like_orig))
       = {''tweet_A''}"
    by (simp add: after_like_orig_eval ready_orig_def page_end_def pageA_liked_def pageA_def
        tweetA_liked_def tweetA_def user_settings_def orig_defs)
  show ?thesis
    using h e r l o again g(5) by blast
qed

section \<open>A reply that arrives after automation was switched off\<close>

lemma disabled_eval:
  "disabled = ready\<lparr>automationEnabled := False, automationInterval := None,
                   pageVisibilityInterval := None\<rparr>"
  by (simp add: disabled_def onMessage_def toggleAutomation_def stopAutomation_def ready_eval Let_def)

text \<open>
  Claim C7, as stated, fails. After an \<^verbatim>\<open>automationToggle\<close> message has disabled automation
  (\<^verbatim>\<open>automationEnabled\<close> and \<^verbatim>\<open>isRunning\<close> are both false), a \<^verbatim>\<open>groqApiResponse\<close> message
  still inserts its text into the focused composer, clicks the submit button and increments
  the comment counter.
\<close>

theorem stale_callback_counterexample:
  "\<not> automationEnabled disabled \<and> \<not> isRunning disabled
   \<and> processedComments disabled = 0
   \<and> processedComments (onMessage (GroqApiResponse ''nice one'') pageA disabled) = 1
   \<and> trace (onMessage (GroqApiResponse ''nice one'') pageA disabled) =
       trace disabled @ [Delay 500, InsertText ''nice one'', Delay 500, Click TweetButton,
                         Delay 1000, ScrollBy 240, Delay 300]"
  by (simp add: disabled_eval ready_eval onMessage_def handleGroqResponse_def findReplyButton_def
      quickScroll_def pageA_def emit_def Let_def)

text \<open>
  Claim C7, amended. The reply callback does not look at the enabled or running state:
  the message listener passes every \<^verbatim>\<open>groqApiResponse\<close> to handleGroqResponse, and what
  handleGroqResponse does (in either script) is the same whatever \<^verbatim>\<open>automationEnabled\<close> and
  \<^verbatim>\<open>isRunning\<close> are. So a reply that arrives after automation was disabled is handled like any
  other: with a focused editable composer and the submit button present, the text is
  inserted, the button is clicked and the comment counter is incremented.
\<close>

theorem reply_callback_unguarded:
  fixes s :: fast_state and o' :: "'a script_state_scheme"
  shows
  "onMessage (GroqApiResponse reply) pg s = handleGroqResponse pg reply s
   \<and> handleGroqResponse pg reply (s\<lparr>automationEnabled := en, isRunning := run\<rparr>)
       = (handleGroqResponse pg reply s)\<lparr>automationEnabled := en, isRunning := run\<rparr>
   \<and> handleGroqResponse_orig pg reply (o'\<lparr>automationEnabled := en, isRunning := run\<rparr>)
       = (handleGroqResponse_orig pg reply o')\<lparr>automationEnabled := en, isRunning := run\<rparr>
   \<and> (active_element pg \<and> active_editable pg \<and> execCommand pg \<and> \<not> insert_throws pg
        \<and> tweetButton pg \<longrightarrow>
        handleGroqResponse pg reply s =
          emit [Delay (if fastMode s then 500 else 1000), InsertText reply,
                Delay (if fastMode s then 500 else 1000), Click TweetButton,
                Delay (if fastMode s then 1000 else 2000),
                ScrollBy (of_int (innerHeight pg) * 0.3),
                Delay (if fastMode s then 300 else 1000)]
            (s\<lparr>processedComments := processedComments s + 1\<rparr>))"
  by (auto simp: onMessage_def handleGroqResponse_def handleCommentError_def findReplyButton_def
      quickScroll_def handleGroqResponse_orig_def handleCommentError_orig_def simulateTyping_def
      emit_def Let_def split: option.splits)

text \<open>The theorem at the disabled state of the counterexample.\<close>

theorem reply_callback_unguarded_witness:
  "active_element pageA \<and> active_editable pageA \<and> execCommand pageA \<and> \<not> insert_throws pageA
   \<and> tweetButton pageA \<and> \<not> automationEnabled disabled \<and> \<not> isRunning disabled
   \<and> onMessage (GroqApiResponse ''nice one'') pageA disabled =
       emit [Delay (if fastMode disabled then 500 else 1000), InsertText ''nice one'',
             Delay (if fastMode disabled then 500 else 1000), Click TweetButton,
             Delay (if fastMode disabled then 1000 else 2000),
             ScrollBy (of_int (innerHeight pageA) * 0.3),
             Delay (if fastMode disabled then 300 else 1000)]
         (disabled\<lparr>processedComments := processedComments disabled + 1\<rparr>)"
proof -
  have h: "active_element pageA" "active_editable pageA" "execCommand pageA"
    "\<not> insert_throws pageA" "tweetButton pageA"
    by (simp_all add: pageA_def)
  have d: "\<not> automationEnabled disabled" "\<not> isRunning disabled"
    by (simp_all add: disabled_eval ready_eval)
  note t = reply_callback_unguarded [of "''nice one''" pageA disabled False False ready_orig]
  have a: "onMessage (GroqApiResponse ''nice one'') pageA disabled =
           handleGroqResponse pageA ''nice one'' disabled"
    using t by blast
  have b: "handleGroqResponse pageA ''nice one'' disabled =
       emit [Delay (if fastMode disabled then 500 else 1000), InsertText ''nice one'',
             Delay (if fastMode disabled then 500 else 1000), Click TweetButton,
             Delay (if fastMode disabled then 1000 else 2000),
             ScrollBy (of_int (innerHeight pageA) * 0.3),
             Delay (if fastMode disabled then 300 else 1000)]
         (disabled\<lparr>processedComments := processedComments disabled + 1\<rparr>)"
    using t h by blast
  show ?thesis
    using h d a b by simp
qed

section \<open>Recovery when the reply cannot be submitted\<close>

lemma find_pageA: "findReplyButton_orig pageA = Some (SelectorButton 0 0)"
  by code_simp

lemma find_nosubmit: "findReplyButton_orig page_nosubmit = None"
  by code_simp

lemma trim_great: "trim ''great'' = ''great''"
  by code_simp

lemma trim_nice: "trim ''nice one'' = ''nice one''"
  by code_simp

text \<open>
  Claim C6, as stated, fails. In the first script, a reply whose direct insertion leaves the
  composer's content different from the reply is typed again by simulated keystrokes and
  then submitted: the comment counter is incremented and no Escape is dispatched. In the
  optimized script, a handler that finds no submit button stops after the insertion: nothing
  is dispatched to dismiss the composer.
\<close>

theorem composer_recovery_counterexample:
  "active_element pageA \<and> active_text pageA \<noteq> trim ''great''
   \<and> processedComments (handleGroqResponse_orig pageA ''great'' ready_orig) = 1
   \<and> DispatchEscape \<notin> set (trace (handleGroqResponse_orig pageA ''great'' ready_orig))
   \<and> findReplyButton page_nosubmit = None
   \<and> trace (handleGroqResponse page_nosubmit ''great'' ready) =
       trace ready @ [Delay 500, InsertText ''great'', Delay 500]"
  using find_pageA trim_great
  by (simp add: handleGroqResponse_orig_def simulateTyping_def ready_orig_def pageA_def Let_def emit_def
     handleGroqResponse_def findReplyButton_def page_nosubmit_def ready_eval)

text \<open>
  Claim C6, amended. When the first script's handler cannot find the submit button, it
  invokes handleCommentError, which clicks every close button and then dispatches Escape;
  only the trace changes, so the comment counter is not incremented and nothing is queued
  again. A mismatch after the direct insertion does not lead to the recovery: the reply is
  typed by simulated keystrokes and the handler goes on to submit, incrementing the counter
  when the button is found. In the optimized script, a handler that cannot find the submit
  button dispatches no click and leaves the comment counter and the action queue unchanged.
\<close>

theorem composer_recovery:
  fixes s :: "'a script_state_scheme" and f :: fast_state
  shows
  "(\<not> insert_throws pg \<and> findReplyButton_orig pg = None \<longrightarrow>
      handleGroqResponse_orig pg reply s =
        emit ([Delay 1500, InsertText (trim reply), Delay 500]
              @ (if active_element pg \<and> active_text pg \<noteq> trim reply then typing (trim reply) else [])
              @ [Delay 1000] @ closing (close_buttons pg) @ [DispatchEscape, Delay 1000]) s
    \<and> processedComments (handleGroqResponse_orig pg reply s) = processedComments s)
   \<and> (\<not> insert_throws pg \<and> active_element pg \<and> active_text pg \<noteq> trim reply
      \<and> findReplyButton_orig pg = Some b \<longrightarrow>
      handleGroqResponse_orig pg reply s =
        emit ([Delay 1500, InsertText (trim reply), Delay 500] @ typing (trim reply)
              @ [Delay 1000, MouseMove b, DelayBetween 100 300, Click b, Delay 3000])
          (s\<lparr>processedComments := processedComments s + 1\<rparr>))
   \<and> (findReplyButton pg = None \<longrightarrow>
      processedComments (handleGroqResponse pg reply f) = processedComments f
    \<and> actionQueue (handleGroqResponse pg reply f) = actionQueue f
    \<and> \<not> list_ex is_click (drop (length (trace f)) (trace (handleGroqResponse pg reply f))))"
  by (auto simp: handleGroqResponse_def handleCommentError_def
      handleGroqResponse_orig_def handleCommentError_orig_def simulateTyping_def
      typing_def closing_def emit_def Let_def)

text \<open>
  The theorem on the page without a submit button (one close button: it is clicked, then
  Escape), and on the page whose composer does not show the inserted reply.
\<close>

theorem composer_recovery_witness:
  "\<not> insert_throws page_nosubmit \<and> findReplyButton_orig page_nosubmit = None
   \<and> handleGroqResponse_orig page_nosubmit ''nice one'' ready_orig =
       emit [Delay 1500, InsertText ''nice one'', Delay 500, Delay 1000,
             Click (CloseButton 0), Delay 500, DispatchEscape, Delay 1000] ready_orig
   \<and> \<not> insert_throws pageA \<and> active_element pageA \<and> active_text pageA \<noteq> trim ''great''
   \<and> findReplyButton_orig pageA = Some (SelectorButton 0 0)
   \<and> handleGroqResponse_orig pageA ''great'' ready_orig =
        emit ([Delay 1500, InsertText ''great'', Delay 500] @ typing ''great''
              @ [Delay 1000, MouseMove (SelectorButton 0 0), DelayBetween 100 300,
                 Click (SelectorButton 0 0), Delay 3000])
          (ready_orig\<lparr>processedComments := processedComments ready_orig + 1\<rparr>)
   \<and> findReplyButton page_nosubmit = None
   \<and> processedComments (handleGroqResponse page_nosubmit ''nice one'' ready) = processedComments ready
   \<and> actionQueue (handleGroqResponse page_nosubmit ''nice one'' ready) = actionQueue ready
   \<and> \<not> list_ex is_click (drop (length (trace ready))
                            (trace (handleGroqResponse page_nosubmit ''nice one'' ready)))"
proof -
  have h1: "\<not> insert_throws page_nosubmit" "findReplyButton_orig page_nosubmit = None"
    "findReplyButton page_nosubmit = None"
    using find_nosubmit by (simp_all add: page_nosubmit_def pageA_def findReplyButton_def)
  have h2: "\<not> insert_throws pageA" "active_element pageA" "active_text pageA \<noteq> trim ''great''"
    "findReplyButton_orig pageA = Some (SelectorButton 0 0)"
    using find_pageA trim_great by (simp_all add: pageA_def)
  have v: "active_text page_nosubmit = ''nice one''"
    by (simp add: page_nosubmit_def pageA_def)
  have c: "closing (close_buttons page_nosubmit) = [Click (CloseButton 0), Delay 500]"
    by (simp add: closing_def page_nosubmit_def pageA_def)
  note a = composer_recovery [of page_nosubmit "''nice one''" ready_orig "SelectorButton 0 0" ready]
  note b = composer_recovery [of pageA "''great''" ready_orig "SelectorButton 0 0" ready]
  have a1: "handleGroqResponse_orig page_nosubmit ''nice one'' ready_orig =
        emit ([Delay 1500, InsertText (trim ''nice one''), Delay 500]
              @ (if active_element page_nosubmit \<and> active_text page_nosubmit \<noteq> trim ''nice one''
                 then typing (trim ''nice one'') else [])
              @ [Delay 1000] @ closing (close_buttons page_nosubmit) @ [DispatchEscape, Delay 1000])
          ready_orig"
    using a h1 by blast
  have a2: "handleGroqResponse_orig page_nosubmit ''nice one'' ready_orig =
       emit [Delay 1500, InsertText ''nice one'', Delay 500, Delay 1000,
             Click (CloseButton 0), Delay 500, DispatchEscape, Delay 1000] ready_orig"
    by (simp add: a1 c trim_nice v)
  have a3: "processedComments (handleGroqResponse page_nosubmit ''nice one'' ready) = processedComments ready
   \<and> actionQueue (handleGroqResponse page_nosubmit ''nice one'' ready) = actionQueue ready
   \<and> \<not> list_ex is_click (drop (length (trace ready))
                            (trace (handleGroqResponse page_nosubmit ''nice one'' ready)))"
    using a h1 by blast
  have b1: "handleGroqResponse_orig pageA ''great'' ready_orig =
        emit ([Delay 1500, InsertText (trim ''great''), Delay 500] @ typing (trim ''great'')
              @ [Delay 1000, MouseMove (SelectorButton 0 0), DelayBetween 100 300,
                 Click (SelectorButton 0 0), Delay 3000])
          (ready_orig\<lparr>processedComments := processedComments ready_orig + 1\<rparr>)"
    using b h2 by blast
  have b2: "handleGroqResponse_orig pageA ''great'' ready_orig =
        emit ([Delay 1500, InsertText ''great'', Delay 500] @ typing ''great''
              @ [Delay 1000, MouseMove (SelectorButton 0 0), DelayBetween 100 300,
                 Click (SelectorButton 0 0), Delay 3000])
          (ready_orig\<lparr>processedComments := processedComments ready_orig + 1\<rparr>)"
    using b1 by (simp only: trim_great)
  show ?thesis
    using h1 h2 a2 a3 b2 by blast
qed

text \<open>The optimized handler on the page without a submit button: the whole result.\<close>

lemma optimized_handler_without_submit_button:
  "findReplyButton page_nosubmit = None
   \<and> handleGroqResponse page_nosubmit ''great'' ready =
       emit [Delay 500, InsertText ''great'', Delay 500] ready"
  by (simp add: handleGroqResponse_def findReplyButton_def page_nosubmit_def pageA_def
      ready_eval emit_def Let_def)

section \<open>The heartbeat interval\<close>

text \<open>
  What each function of the optimized script does to the heartbeat handle and to the running
  flag.
\<close>

lemma handleGroqResponse_controls: "same_controls s (handleGroqResponse pg reply s)"
  by (simp add: handleGroqResponse_def handleCommentError_def findReplyButton_def
      quickScroll_def same_controls_def Let_def)

lemma handleCommentError_controls: "same_controls s (handleCommentError s)"
  by (simp add: handleCommentError_def same_controls_def)

lemma startAutomationFast_keeps:
  "pageVisibilityInterval (startAutomationFast s) = pageVisibilityInterval s"
  "isRunning (startAutomationFast s) = isRunning s"
  by (simp_all add: startAutomationFast_def)

lemma stopAutomation_clears:
  "pageVisibilityInterval (stopAutomation s) = None"
  "automationInterval (stopAutomation s) = None"
  "\<not> isRunning (stopAutomation s)"
  by (cases "pageVisibilityInterval s"; cases "automationInterval s";
      simp add: stopAutomation_def Let_def)+

lemma toggleAutomation_heartbeat:
  "pageVisibilityInterval s = None \<Longrightarrow> pageVisibilityInterval (toggleAutomation b s) = None"
  by (simp add: toggleAutomation_def startAutomationFast_keeps stopAutomation_clears Let_def)

lemma onMessage_heartbeat:
  "pageVisibilityInterval s = None \<Longrightarrow> pageVisibilityInterval (onMessage m pg s) = None"
  using handleGroqResponse_controls [of s pg]
  by (cases m) (simp_all add: onMessage_def toggleAutomation_heartbeat Let_def
      handleCommentError_def same_controls_def)

lemma cycle_try_keeps:
  "pageVisibilityInterval (fst (cycle_try pg s)) = pageVisibilityInterval s"
  "isRunning (fst (cycle_try pg s)) = isRunning s"
  by (simp_all add: cycle_try_def Let_def split: option.splits)

lemma runAutomation_begin_heartbeat:
  "pageVisibilityInterval (fst (runAutomation_begin pg s)) = pageVisibilityInterval s"
  using cycle_try_keeps(1) [of pg "s\<lparr>isRunning := True\<rparr>"]
  by (cases "cycle_try pg (s\<lparr>isRunning := True\<rparr>)")
     (auto simp: runAutomation_begin_def cycle_finally_def cycle_catch_def split: sum.splits exn.splits)

lemma runAutomation_resume_heartbeat:
  "pageVisibilityInterval (runAutomation_resume pg task s) = pageVisibilityInterval s"
  using engageWithTweetFast_controls
  by (cases task) (simp_all add: runAutomation_resume_def cycle_finally_def same_controls_def)

lemma drain_continue_keeps:
  "pageVisibilityInterval (fst (drain_continue clock s)) = pageVisibilityInterval s"
  "isRunning (fst (drain_continue clock s)) = isRunning s"
  by (simp_all add: drain_continue_def split: prod.splits option.splits)

lemma processActionQueue_keeps:
  "pageVisibilityInterval (fst (processActionQueue clock s)) = pageVisibilityInterval s"
  "isRunning (fst (processActionQueue clock s)) = isRunning s"
  by (simp_all add: processActionQueue_def drain_continue_keeps)

lemma processTweetsQuickly_keeps:
  "pageVisibilityInterval (fst (processTweetsQuickly pg s)) = pageVisibilityInterval s"
  "isRunning (fst (processTweetsQuickly pg s)) = isRunning s"
  by (simp_all add: processTweetsQuickly_def processActionQueue_keeps Let_def split: option.splits)

lemma drain_resume_keeps:
  "pageVisibilityInterval (fst (drain_resume pg task s)) = pageVisibilityInterval s"
  "isRunning (fst (drain_resume pg task s)) = isRunning s"
  using engageWithTweetFast_controls
  by (cases task; simp add: drain_resume_def drain_continue_keeps case_prod_beta same_controls_def)+

lemma step_heartbeat:
  assumes "pageVisibilityInterval (globals sys) = None"
  shows "pageVisibilityInterval (globals (step e sys)) = None"
proof (cases e)
  case (OnMessage m pg)
  then show ?thesis
    using assms by (simp add: onMessage_heartbeat)
next
  case (CallRunAutomation pg)
  then show ?thesis
    using assms runAutomation_begin_heartbeat [of pg "globals sys"]
    by (cases "runAutomation_begin pg (globals sys)") (auto split: option.splits)
next
  case (ResumeCycle k pg)
  then show ?thesis
    using assms by (simp add: runAutomation_resume_heartbeat)
next
  case (CallProcessTweetsQuickly pg)
  then show ?thesis
    using assms processTweetsQuickly_keeps(1) [of pg "globals sys"]
    by (cases "processTweetsQuickly pg (globals sys)") (auto split: option.splits)
next
  case (ResumeDrain k pg)
  then show ?thesis
    using assms drain_resume_keeps(1) [of pg "drains sys ! k" "globals sys"]
    by (cases "drain_resume pg (drains sys ! k) (globals sys)") (auto split: option.splits)
qed

lemma exec_heartbeat:
  "pageVisibilityInterval (globals sys) = None \<Longrightarrow>
   pageVisibilityInterval (globals (exec evs sys)) = None"
  by (induction evs arbitrary: sys) (simp_all add: step_heartbeat)

text \<open>
  Claim C10. The heartbeat interval is started by initialize. stopAutomation clears it
  together with the polling interval, and startAutomationFast sets the polling interval only.
  No other function of the script writes the heartbeat handle, so once an
  \<^verbatim>\<open>automationToggle\<close> message has disabled automation the handle is \<^verbatim>\<open>null\<close> after every
  later sequence of events, however often automation is enabled again.
\<close>

theorem heartbeat_never_resumes:
  "pageVisibilityInterval (globals (init_system stored)) = Some ()
   \<and> pageVisibilityInterval (stopAutomation s) = None
   \<and> automationInterval (stopAutomation s) = None
   \<and> pageVisibilityInterval (startAutomationFast s) = pageVisibilityInterval s
   \<and> automationInterval (startAutomationFast s) = Some ()
   \<and> pageVisibilityInterval
        (globals (exec evs (step (OnMessage (AutomationToggle False) pg) sys))) = None"
proof -
  have a: "pageVisibilityInterval (globals (init_system stored)) = Some ()"
    by (simp add: init_system_def initialize_def startBackgroundMode_def Let_def)
  have b: "automationInterval (startAutomationFast s) = Some ()"
    by (simp add: startAutomationFast_def)
  have "pageVisibilityInterval (globals (step (OnMessage (AutomationToggle False) pg) sys)) = None"
    by (simp add: onMessage_def toggleAutomation_def stopAutomation_clears Let_def)
  then have c: "pageVisibilityInterval
        (globals (exec evs (step (OnMessage (AutomationToggle False) pg) sys))) = None"
    by (rule exec_heartbeat)
  show ?thesis
    using a b c stopAutomation_clears(1,2) startAutomationFast_keeps(1) by blast
qed

text \<open>
  The theorem on a session that is disabled, enabled again and then runs a cycle: the polling
  interval is back, the heartbeat is not.
\<close>

theorem heartbeat_never_resumes_witness:
  "pageVisibilityInterval (globals (init_system (Some user_settings))) = Some ()
   \<and> pageVisibilityInterval
        (globals (exec [OnMessage (AutomationToggle True) pageA, CallRunAutomation pageA,
                        ResumeCycle 0 pageA]
                   (step (OnMessage (AutomationToggle False) pageA)
                      (init_system (Some user_settings))))) = None
   \<and> automationInterval
        (globals (exec [OnMessage (AutomationToggle True) pageA, CallRunAutomation pageA,
                        ResumeCycle 0 pageA]
                   (step (OnMessage (AutomationToggle False) pageA)
                      (init_system (Some user_settings))))) = Some ()"
proof -
  note t = heartbeat_never_resumes
    [of "Some user_settings" ready
        "[OnMessage (AutomationToggle True) pageA, CallRunAutomation pageA, ResumeCycle 0 pageA]"
        pageA "init_system (Some user_settings)"]
  have a: "automationInterval
        (globals (exec [OnMessage (AutomationToggle True) pageA, CallRunAutomation pageA,
                        ResumeCycle 0 pageA]
                   (step (OnMessage (AutomationToggle False) pageA)
                      (init_system (Some user_settings))))) = Some ()"
    unfolding init_eval
    by (simp add: ready_eval onMessage_def toggleAutomation_def stopAutomation_def
        startAutomationFast_def runAutomation_begin_def cycle_try_def runAutomation_resume_def
        cycle_finally_def remove_nth_def pageA_def tweetA_def user_settings_def engine_defs)
  show ?thesis
    using t a by blast
qed

section \<open>One cycle at a time\<close>

lemma toggle_on_isRunning: "isRunning (toggleAutomation True s) = isRunning s"
  by (simp add: toggleAutomation_def startAutomationFast_keeps Let_def)

lemma onMessage_isRunning:
  "\<not> disables (OnMessage m pg) \<Longrightarrow> isRunning (onMessage m pg s) = isRunning s"
  using handleGroqResponse_controls [of s pg]
  by (cases m) (auto simp: onMessage_def toggle_on_isRunning Let_def handleCommentError_def
      same_controls_def)

lemma runAutomation_begin_running:
  assumes "runAutomation_begin pg s = (s', r)"
  shows "(isRunning s \<longrightarrow> s' = s \<and> r = None)
       \<and> (\<not> isRunning s \<longrightarrow> (r = None \<longrightarrow> \<not> isRunning s') \<and> (r \<noteq> None \<longrightarrow> isRunning s'))"
proof (cases "settings s = None \<or> isRunning s \<or> \<not> automationEnabled s")
  case True
  then show ?thesis
    using assms by (auto simp: runAutomation_begin_def)
next
  case False
  obtain s1 x where c: "cycle_try pg (s\<lparr>isRunning := True\<rparr>) = (s1, x)"
    by (cases "cycle_try pg (s\<lparr>isRunning := True\<rparr>)")
  have r1: "isRunning s1"
    using cycle_try_keeps(2) [of pg "s\<lparr>isRunning := True\<rparr>"] by (simp add: c)
  show ?thesis
    using assms False r1
    by (cases x) (auto simp: runAutomation_begin_def c cycle_finally_def cycle_catch_def
        split: exn.splits)
qed

lemma runAutomation_resume_stops: "\<not> isRunning (runAutomation_resume pg task s)"
  by (cases task) (simp_all add: runAutomation_resume_def cycle_finally_def)

lemma step_one_cycle:
  assumes "one_cycle sys" and "\<not> disables e"
  shows "one_cycle (step e sys)"
proof (cases e)
  case (OnMessage m pg)
  then show ?thesis
    using assms onMessage_isRunning [of m pg "globals sys"] by (simp add: one_cycle_def)
next
  case (CallRunAutomation pg)
  obtain s' r where b: "runAutomation_begin pg (globals sys) = (s', r)"
    by (cases "runAutomation_begin pg (globals sys)")
  show ?thesis
    using assms(1) runAutomation_begin_running [OF b]
    by (cases r) (auto simp: CallRunAutomation b one_cycle_def)
next
  case (ResumeCycle k pg)
  then show ?thesis
    using assms(1) runAutomation_resume_stops
    by (auto simp: one_cycle_def remove_nth_def)
next
  case (CallProcessTweetsQuickly pg)
  then show ?thesis
    using assms(1) processTweetsQuickly_keeps(2) [of pg "globals sys"]
    by (cases "processTweetsQuickly pg (globals sys)") (auto simp: one_cycle_def split: option.splits)
next
  case (ResumeDrain k pg)
  then show ?thesis
    using assms(1) drain_resume_keeps(2) [of pg "drains sys ! k" "globals sys"]
    by (cases "drain_resume pg (drains sys ! k) (globals sys)")
       (auto simp: one_cycle_def split: option.splits)
qed

lemma exec_one_cycle:
  "one_cycle sys \<Longrightarrow> \<forall>e \<in> set evs. \<not> disables e \<Longrightarrow> one_cycle (exec evs sys)"
  by (induction evs arbitrary: sys) (simp_all add: step_one_cycle)

lemma init_one_cycle: "one_cycle (init_system stored)"
  by (simp add: one_cycle_def init_system_def)

text \<open>
  Claim C2, as stated, fails. A cycle that found nothing to engage with waits 1500 ms after
  scrolling. In that time automation is switched off, which clears the running flag while
  the cycle is still suspended, and on again, which schedules runAutomation 500 ms later;
  that call passes the guard and a second cycle starts while the first is still waiting.
\<close>

theorem cycle_mutual_exclusion_counterexample:
  "cycles (exec (take 3 restart_schedule) (init_system (Some user_settings))) = [AwaitScrollDelay]
   \<and> \<not> isRunning (globals (exec (take 3 restart_schedule) (init_system (Some user_settings))))
   \<and> trace (globals (exec (take 3 restart_schedule) (init_system (Some user_settings))))
       = [ScheduleRun 500, ScrollBy 680, Delay 1500, ScheduleRun 500]
   \<and> cycles (exec restart_schedule (init_system (Some user_settings)))
       = [AwaitScrollDelay, AwaitEngage tweetA]
   \<and> length (cycles (exec restart_schedule (init_system (Some user_settings)))) = 2"
  unfolding restart_schedule_def init_eval
  by (simp add: ready_eval runAutomation_begin_def cycle_try_def
      onMessage_def toggleAutomation_def stopAutomation_def startAutomationFast_def
      page_empty_simps pageA_simps tweetA_simps getTweetId_def emit_def Let_def)

text \<open>
  Claim C2, amended. A call of runAutomation made while the running flag is set returns at
  once without modifying any state. Every exit of a cycle resets the running flag, also
  when the \<^verbatim>\<open>try\<close> block throws; the \<^verbatim>\<open>catch\<close> block only logs, so a cycle that throws keeps
  what it had changed before the throw (nothing when the first query throws, the seen
  counter afterwards) and changes nothing else. As long as no event disables automation, at
  most one cycle is active and the flag is set while it is; disabling clears the flag even
  while a cycle is suspended, so the bound does not hold across a disable.
\<close>

theorem cycle_mutual_exclusion:
  "(isRunning s \<longrightarrow> runAutomation_begin pg s = (s, None) \<and> runAutomation pg s = s)
   \<and> \<not> isRunning (runAutomation_resume pg task s)
   \<and> (\<not> isRunning s \<longrightarrow> \<not> isRunning (runAutomation pg s))
   \<and> (settings s \<noteq> None \<and> \<not> isRunning s \<and> automationEnabled s \<longrightarrow>
        (throw_at pg = Some ThrowAtQuery \<longrightarrow> runAutomation pg s = emit [ConsoleError] s)
      \<and> (throw_at pg = Some ThrowAtDisplay \<longrightarrow>
           runAutomation pg s = emit [ConsoleError] (s\<lparr>totalTweets := length (tweets pg)\<rparr>))
      \<and> (throw_at pg = Some ThrowAtScroll
           \<and> cycle_candidate (innerHeight pg) (processedTweets s) (tweets pg) = None \<longrightarrow>
           runAutomation pg s = emit [ConsoleError] (s\<lparr>totalTweets := length (tweets pg)\<rparr>)))
   \<and> ((\<forall>e \<in> set evs. \<not> disables e) \<longrightarrow>
        length (cycles (exec evs (init_system stored))) \<le> 1
      \<and> (cycles (exec evs (init_system stored)) \<noteq> [] \<longrightarrow>
           isRunning (globals (exec evs (init_system stored)))))"
proof -
  have a: "runAutomation_begin pg s = (s, None) \<and> runAutomation pg s = s" if "isRunning s"
    using that by (simp add: runAutomation_def runAutomation_begin_def)
  have b: "\<not> isRunning (runAutomation_resume pg task s)"
    by (rule runAutomation_resume_stops)
  have c: "\<not> isRunning (runAutomation pg s)" if "\<not> isRunning s"
  proof -
    obtain s' r where g: "runAutomation_begin pg s = (s', r)"
      by (cases "runAutomation_begin pg s")
    show ?thesis
      using that runAutomation_begin_running [OF g] runAutomation_resume_stops
      by (cases r) (auto simp: runAutomation_def g)
  qed
  have d: "(throw_at pg = Some ThrowAtQuery \<longrightarrow> runAutomation pg s = emit [ConsoleError] s)
      \<and> (throw_at pg = Some ThrowAtDisplay \<longrightarrow>
           runAutomation pg s = emit [ConsoleError] (s\<lparr>totalTweets := length (tweets pg)\<rparr>))
      \<and> (throw_at pg = Some ThrowAtScroll
           \<and> cycle_candidate (innerHeight pg) (processedTweets s) (tweets pg) = None \<longrightarrow>
           runAutomation pg s = emit [ConsoleError] (s\<lparr>totalTweets := length (tweets pg)\<rparr>))"
    if "settings s \<noteq> None" "\<not> isRunning s" "automationEnabled s"
    using that
    by (auto simp: runAutomation_def runAutomation_begin_def cycle_try_def cycle_catch_def
        cycle_finally_def emit_def Let_def)
  have e: "length (cycles (exec evs (init_system stored))) \<le> 1
      \<and> (cycles (exec evs (init_system stored)) \<noteq> [] \<longrightarrow>
           isRunning (globals (exec evs (init_system stored))))"
    if "\<forall>e \<in> set evs. \<not> disables e"
    using exec_one_cycle [OF init_one_cycle that, of stored] by (auto simp: one_cycle_def)
  show ?thesis
    using a b c d e by blast
qed

text \<open>
  The theorem on a schedule without a disable (the call that arrives during the first cycle
  is turned away, the call after its end starts the only active cycle), at a state with the
  flag set, and at a first query that throws.
\<close>

theorem cycle_mutual_exclusion_witness:
  "list_all (\<lambda>e. \<not> disables e) steady_schedule
   \<and> cycles (exec steady_schedule (init_system (Some user_settings))) = [AwaitEngage tweetA]
   \<and> length (cycles (exec steady_schedule (init_system (Some user_settings)))) \<le> 1
   \<and> isRunning (globals (exec steady_schedule (init_system (Some user_settings))))
   \<and> isRunning (ready\<lparr>isRunning := True\<rparr>)
   \<and> runAutomation pageA (ready\<lparr>isRunning := True\<rparr>) = ready\<lparr>isRunning := True\<rparr>
   \<and> settings ready \<noteq> None \<and> \<not> isRunning ready \<and> automationEnabled ready
   \<and> throw_at (pageA\<lparr>throw_at := Some ThrowAtQuery\<rparr>) = Some ThrowAtQuery
   \<and> runAutomation (pageA\<lparr>throw_at := Some ThrowAtQuery\<rparr>) ready = emit [ConsoleError] ready
   \<and> \<not> isRunning (runAutomation pageA ready)"
proof -
  have h: "\<forall>e \<in> set steady_schedule. \<not> disables e"
    by (simp add: steady_schedule_def)
  have c: "cycles (exec steady_schedule (init_system (Some user_settings))) = [AwaitEngage tweetA]"
    by (simp add: steady_schedule_def init_eval ready_eval runAutomation_begin_def cycle_try_def
      runAutomation_resume_def cycle_finally_def remove_nth_def
      page_empty_simps pageA_simps tweetA_simps getTweetId_def emit_def Let_def)
  have r: "isRunning (ready\<lparr>isRunning := True\<rparr>)" by simp
  have g: "settings ready \<noteq> None" "\<not> isRunning ready" "automationEnabled ready"
    by (simp_all add: ready_eval)
  have t: "throw_at (pageA\<lparr>throw_at := Some ThrowAtQuery\<rparr>) = Some ThrowAtQuery" by simp
  note m1 = cycle_mutual_exclusion
    [of "ready\<lparr>isRunning := True\<rparr>" pageA AwaitScrollDelay steady_schedule "Some user_settings"]
  note m2 = cycle_mutual_exclusion
    [of ready "pageA\<lparr>throw_at := Some ThrowAtQuery\<rparr>" AwaitScrollDelay steady_schedule
        "Some user_settings"]
  note m3 = cycle_mutual_exclusion [of ready pageA AwaitScrollDelay steady_schedule "Some user_settings"]
  have a1: "length (cycles (exec steady_schedule (init_system (Some user_settings)))) \<le> 1
            \<and> isRunning (globals (exec steady_schedule (init_system (Some user_settings))))"
    using m1 h c by simp
  have a2: "runAutomation pageA (ready\<lparr>isRunning := True\<rparr>) = ready\<lparr>isRunning := True\<rparr>"
    using m1 r by blast
  have a3: "runAutomation (pageA\<lparr>throw_at := Some ThrowAtQuery\<rparr>) ready = emit [ConsoleError] ready"
    using m2 g t by blast
  have a4: "\<not> isRunning (runAutomation pageA ready)"
    using m3 g(2) by blast
  have h': "list_all (\<lambda>e. \<not> disables e) steady_schedule"
    using h by (simp add: list_all_iff)
  show ?thesis
    using h' c a1 a2 a3 a4 r g t by blast
qed

section \<open>Enqueueing\<close>

lemma quick_candidate_unprocessed:
  "quick_candidate h processed ts = Some t \<Longrightarrow> getTweetId t \<notin> processed"
  by (induction ts) (auto split: if_splits)

lemma scan_while_draining:
  assumes "settings s \<noteq> None" "automationEnabled s" "\<not> isRunning s" "isProcessingQueue s"
    and "quick_candidate (innerHeight pg) (processedTweets s) (tweets pg) = Some t"
  shows "processTweetsQuickly pg s =
            (s\<lparr>actionQueue := actionQueue s @
                  [\<lparr>tweet = t, q_tweetId = getTweetId t, timestamp = date_now pg 0\<rparr>]\<rparr>, None)"
  using assms by (auto simp: processTweetsQuickly_def Let_def)

lemma scans_while_draining:
  assumes "settings s \<noteq> None" "automationEnabled s" "\<not> isRunning s" "isProcessingQueue s"
    and "quick_candidate (innerHeight pg) (processedTweets s) (tweets pg) = Some t"
  shows "exec (replicate n (CallProcessTweetsQuickly pg)) \<lparr>globals = s, cycles = cs, drains = ds\<rparr> =
         \<lparr>globals = s\<lparr>actionQueue := actionQueue s @
              replicate n \<lparr>tweet = t, q_tweetId = getTweetId t, timestamp = date_now pg 0\<rparr>\<rparr>,
          cycles = cs, drains = ds\<rparr>"
  using assms
proof (induction n arbitrary: s)
  case 0
  then show ?case by simp
next
  case (Suc n)
  let ?a = "\<lparr>tweet = t, q_tweetId = getTweetId t, timestamp = date_now pg 0\<rparr>"
  let ?s' = "s\<lparr>actionQueue := actionQueue s @ [?a]\<rparr>"
  have one: "step (CallProcessTweetsQuickly pg) \<lparr>globals = s, cycles = cs, drains = ds\<rparr> =
             \<lparr>globals = ?s', cycles = cs, drains = ds\<rparr>"
    using scan_while_draining [OF Suc.prems] by simp
  have rest: "exec (replicate n (CallProcessTweetsQuickly pg)) \<lparr>globals = ?s', cycles = cs, drains = ds\<rparr> =
         \<lparr>globals = ?s'\<lparr>actionQueue := actionQueue ?s' @ replicate n ?a\<rparr>, cycles = cs, drains = ds\<rparr>"
    using Suc.prems by (intro Suc.IH) simp_all
  have "exec (replicate (Suc n) (CallProcessTweetsQuickly pg)) \<lparr>globals = s, cycles = cs, drains = ds\<rparr>
        = exec (replicate n (CallProcessTweetsQuickly pg))
            (step (CallProcessTweetsQuickly pg) \<lparr>globals = s, cycles = cs, drains = ds\<rparr>)"
    by simp
  also have "\<dots> = \<lparr>globals = ?s'\<lparr>actionQueue := actionQueue ?s' @ replicate n ?a\<rparr>,
                    cycles = cs, drains = ds\<rparr>"
    by (simp only: one rest)
  finally show ?case
    by (simp add: replicate_app_Cons_same)
qed

lemma scanned_twice_eval:
  "scanned_twice =
     ready\<lparr>actionQueue := [\<lparr>tweet = tweetA\<lparr>like_button := False\<rparr>, q_tweetId = ''tweet_A'',
                               timestamp = 1000\<rparr>],
           isProcessingQueue := True,
           trace := [ScheduleRun 500, Engage ''tweet_A'', Delay 2000]\<rparr>"
  unfolding scanned_twice_def scan_schedule_def init_eval
  by (simp add: ready_eval processTweetsQuickly_def processActionQueue_def drain_continue_def
      drain_resume_def page_unlikable_def pageA_def tweetA_def user_settings_def engine_defs)

text \<open>
  Claim C1, as stated, fails. The only tweet in view shows no like button and the comment
  gate stays closed, so the engagement that the first scan starts ends without an action and
  the tweet does not enter the processed set. The drain then waits 2000 ms before it pops
  again; the observer fires twice in that time and each scan pushes another action for the
  tweet: the queue holds two actions with the same id.
\<close>

theorem queue_dedup_counterexample:
  "map q_tweetId (actionQueue (globals (exec scan_schedule (init_system (Some user_settings)))))
     = [''tweet_A'', ''tweet_A'']
   \<and> \<not> distinct (map q_tweetId
          (actionQueue (globals (exec scan_schedule (init_system (Some user_settings))))))
   \<and> drains (exec scan_schedule (init_system (Some user_settings))) = [DrainPacing]"
  unfolding scan_schedule_def init_eval
  by (simp add: ready_eval processTweetsQuickly_def processActionQueue_def drain_continue_def
      drain_resume_def page_unlikable_def pageA_def tweetA_def user_settings_def engine_defs)

text \<open>
  Claim C1, amended. A scan (processTweetsQuickly) that passes its guard and finds a first
  visible tweet whose id is not in the processed set appends one action for it at the tail
  of the queue, whether or not the queue already holds an action with that id: the processed
  set is the only filter. If the drain is running the scan does nothing else, so \<open>n\<close> scans
  of the same page in a row leave \<open>n\<close> more actions for the same tweet in the queue; if
  the drain is not running, the scan starts it on the extended queue. A scan that fails its
  guard or finds no such tweet changes nothing.
\<close>

theorem enqueue_appends:
  "(settings s \<noteq> None \<and> automationEnabled s \<and> \<not> isRunning s
     \<and> quick_candidate (innerHeight pg) (processedTweets s) (tweets pg) = Some t \<longrightarrow>
       getTweetId t \<notin> processedTweets s
     \<and> (isProcessingQueue s \<longrightarrow>
          processTweetsQuickly pg s =
            (s\<lparr>actionQueue := actionQueue s @
                  [\<lparr>tweet = t, q_tweetId = getTweetId t, timestamp = date_now pg 0\<rparr>]\<rparr>, None)
        \<and> exec (replicate n (CallProcessTweetsQuickly pg))
             \<lparr>globals = s, cycles = cs, drains = ds\<rparr> =
            \<lparr>globals = s\<lparr>actionQueue := actionQueue s @
               replicate n \<lparr>tweet = t, q_tweetId = getTweetId t, timestamp = date_now pg 0\<rparr>\<rparr>,
             cycles = cs, drains = ds\<rparr>)
     \<and> (\<not> isProcessingQueue s \<longrightarrow>
          processTweetsQuickly pg s =
            drain_continue (\<lambda>k. date_now pg (Suc k))
              (s\<lparr>actionQueue := actionQueue s @
                    [\<lparr>tweet = t, q_tweetId = getTweetId t, timestamp = date_now pg 0\<rparr>],
                 isProcessingQueue := True\<rparr>)))
   \<and> (settings s = None \<or> \<not> automationEnabled s \<or> isRunning s
      \<or> quick_candidate (innerHeight pg) (processedTweets s) (tweets pg) = None \<longrightarrow>
        processTweetsQuickly pg s = (s, None))"
proof -
  let ?a = "\<lparr>tweet = t, q_tweetId = getTweetId t, timestamp = date_now pg 0\<rparr>"
  have unprocessed: "getTweetId t \<notin> processedTweets s"
    if "quick_candidate (innerHeight pg) (processedTweets s) (tweets pg) = Some t"
    using that by (rule quick_candidate_unprocessed)
  have idle: "processTweetsQuickly pg s =
            drain_continue (\<lambda>k. date_now pg (Suc k))
              (s\<lparr>actionQueue := actionQueue s @ [?a], isProcessingQueue := True\<rparr>)"
    if "settings s \<noteq> None" "automationEnabled s" "\<not> isRunning s" "\<not> isProcessingQueue s"
      "quick_candidate (innerHeight pg) (processedTweets s) (tweets pg) = Some t"
    using that by (auto simp: processTweetsQuickly_def processActionQueue_def Let_def)
  have skipped: "processTweetsQuickly pg s = (s, None)"
    if "settings s = None \<or> \<not> automationEnabled s \<or> isRunning s
      \<or> quick_candidate (innerHeight pg) (processedTweets s) (tweets pg) = None"
    using that by (auto simp: processTweetsQuickly_def)
  show ?thesis
    apply (intro conjI impI)
    subgoal using unprocessed by blast
    subgoal using scan_while_draining [of s pg t] by blast
    subgoal using scans_while_draining [of s pg t n cs ds] by blast
    subgoal using idle by blast
    subgoal using skipped by blast
    done
qed

text \<open>
  The theorem at the state before the last scan of the counterexample, whose queue already
  holds an action for the tweet (three more scans make four), and at a state with the
  running flag set.
\<close>

theorem enqueue_appends_witness:
  "settings scanned_twice \<noteq> None \<and> automationEnabled scanned_twice \<and> \<not> isRunning scanned_twice
   \<and> quick_candidate (innerHeight page_unlikable) (processedTweets scanned_twice)
        (tweets page_unlikable) = Some (tweetA\<lparr>like_button := False\<rparr>)
   \<and> isProcessingQueue scanned_twice
   \<and> map q_tweetId (actionQueue scanned_twice) = [''tweet_A'']
   \<and> getTweetId (tweetA\<lparr>like_button := False\<rparr>) = ''tweet_A''
   \<and> processTweetsQuickly page_unlikable scanned_twice =
        (scanned_twice\<lparr>actionQueue := actionQueue scanned_twice @
            [\<lparr>tweet = tweetA\<lparr>like_button := False\<rparr>,
              q_tweetId = getTweetId (tweetA\<lparr>like_button := False\<rparr>),
              timestamp = date_now page_unlikable 0\<rparr>]\<rparr>, None)
   \<and> map q_tweetId (actionQueue (globals
         (exec (replicate 3 (CallProcessTweetsQuickly page_unlikable))
            \<lparr>globals = scanned_twice, cycles = [], drains = [DrainPacing]\<rparr>)))
       = [''tweet_A'', ''tweet_A'', ''tweet_A'', ''tweet_A'']
   \<and> isRunning (scanned_twice\<lparr>isRunning := True\<rparr>)
   \<and> processTweetsQuickly page_unlikable (scanned_twice\<lparr>isRunning := True\<rparr>)
       = (scanned_twice\<lparr>isRunning := True\<rparr>, None)"
proof -
  let ?t = "tweetA\<lparr>like_button := False\<rparr>"
  have h: "settings scanned_twice \<noteq> None" "automationEnabled scanned_twice"
    "\<not> isRunning scanned_twice" "isProcessingQueue scanned_twice"
    "map q_tweetId (actionQueue scanned_twice) = [''tweet_A'']"
    by (simp_all add: scanned_twice_eval ready_eval)
  have c: "quick_candidate (innerHeight page_unlikable) (processedTweets scanned_twice)
             (tweets page_unlikable) = Some ?t"
    by (simp add: scanned_twice_eval ready_eval page_unlikable_def pageA_def tweetA_def
        getTweetId_def)
  have i: "getTweetId ?t = ''tweet_A''"
    by (simp add: getTweetId_def tweetA_def)
  have r: "isRunning (scanned_twice\<lparr>isRunning := True\<rparr>)" by simp
  note a = enqueue_appends [of scanned_twice page_unlikable ?t 3 "[]" "[DrainPacing]"]
  note b = enqueue_appends [of "scanned_twice\<lparr>isRunning := True\<rparr>" page_unlikable ?t 3 "[]"
                               "[DrainPacing]"]
  have a1: "processTweetsQuickly page_unlikable scanned_twice =
        (scanned_twice\<lparr>actionQueue := actionQueue scanned_twice @
            [\<lparr>tweet = ?t, q_tweetId = getTweetId ?t,
              timestamp = date_now page_unlikable 0\<rparr>]\<rparr>, None)"
    using a h c by blast
  have a2: "exec (replicate 3 (CallProcessTweetsQuickly page_unlikable))
             \<lparr>globals = scanned_twice, cycles = [], drains = [DrainPacing]\<rparr> =
            \<lparr>globals = scanned_twice\<lparr>actionQueue := actionQueue scanned_twice @
               replicate 3 \<lparr>tweet = ?t, q_tweetId = getTweetId ?t,
                             timestamp = date_now page_unlikable 0\<rparr>\<rparr>,
             cycles = [], drains = [DrainPacing]\<rparr>"
    using a h c by blast
  have a3: "map q_tweetId (actionQueue (globals
         (exec (replicate 3 (CallProcessTweetsQuickly page_unlikable))
            \<lparr>globals = scanned_twice, cycles = [], drains = [DrainPacing]\<rparr>)))
       = [''tweet_A'', ''tweet_A'', ''tweet_A'', ''tweet_A'']"
    by (simp only: a2) (simp add: h(5) i numeral_3_eq_3)
  have b1: "processTweetsQuickly page_unlikable (scanned_twice\<lparr>isRunning := True\<rparr>)
       = (scanned_twice\<lparr>isRunning := True\<rparr>, None)"
    using b r by blast
  show ?thesis
    using h c i r a1 a3 b1 by blast
qed

section \<open>The caches in the scripts\<close>

lemma cache_insert_ok: "cache_ok cap m \<Longrightarrow> cache_ok cap (cache_insert cap k v m)"
  using cache_insert_invariant [of m cap k v] by (simp add: cache_ok_def)

lemma likePostFast_cache: "tweetCache (snd (likePostFast t s)) = tweetCache s"
  by (simp add: likePostFast_def Let_def)

lemma getTweetTextFast_cache:
  "cache_ok 50 (tweetCache s) \<Longrightarrow> cache_ok 50 (tweetCache (snd (getTweetTextFast t s)))"
  by (simp add: getTweetTextFast_def Let_def cache_insert_ok split: option.splits)

lemma commentOnPostFast_cache:
  "cache_ok 50 (tweetCache s) \<Longrightarrow> cache_ok 50 (tweetCache (snd (commentOnPostFast t s)))"
  using getTweetTextFast_cache [of s t]
  by (cases "getTweetTextFast t s") (simp add: commentOnPostFast_def Let_def)

lemma engageWithTweetFast_cache:
  assumes "cache_ok 50 (tweetCache s)"
  shows "cache_ok 50 (tweetCache (snd (engageWithTweetFast pg t tid s)))"
proof (cases "settings s")
  case None
  then show ?thesis
    using assms by (simp add: engageWithTweetFast_None engage_start_def)
next
  case (Some st)
  let ?s1 = "engage_start pg t tid s"
  let ?r2 = "engage_like st t ?s1"
  let ?r3 = "engage_comment st pg t (snd ?r2)"
  have "cache_ok 50 (tweetCache ?s1)"
    using assms by (simp add: engage_start_def)
  then have "cache_ok 50 (tweetCache (snd ?r2))"
    by (simp add: engage_like_def likePostFast_cache)
  then have "cache_ok 50 (tweetCache (snd ?r3))"
    by (simp add: engage_comment_def commentOnPostFast_cache)
  then show ?thesis
    by (simp add: engageWithTweetFast_Some [OF Some] Let_def updateLastActionTime_def)
qed

lemma onMessage_cache: "tweetCache (onMessage m pg s) = tweetCache s"
  by (cases m)
     (simp_all add: onMessage_def toggleAutomation_def startAutomationFast_def stopAutomation_def
        handleGroqResponse_def handleCommentError_def findReplyButton_def quickScroll_def Let_def)

lemma runAutomation_begin_cache: "tweetCache (fst (runAutomation_begin pg s)) = tweetCache s"
  by (auto simp: runAutomation_begin_def cycle_try_def cycle_finally_def cycle_catch_def Let_def
      split: option.splits)

lemma runAutomation_resume_cache:
  "cache_ok 50 (tweetCache s) \<Longrightarrow> cache_ok 50 (tweetCache (runAutomation_resume pg task s))"
  by (cases task) (simp_all add: runAutomation_resume_def cycle_finally_def engageWithTweetFast_cache)

lemma drain_continue_cache: "tweetCache (fst (drain_continue clock s)) = tweetCache s"
  by (simp add: drain_continue_def split: prod.splits option.splits)

lemma processTweetsQuickly_cache: "tweetCache (fst (processTweetsQuickly pg s)) = tweetCache s"
  by (simp add: processTweetsQuickly_def processActionQueue_def drain_continue_cache Let_def
      split: option.splits)

lemma drain_resume_cache:
  "cache_ok 50 (tweetCache s) \<Longrightarrow> cache_ok 50 (tweetCache (fst (drain_resume pg task s)))"
  using engageWithTweetFast_cache
  by (cases task) (simp_all add: drain_resume_def drain_continue_cache case_prod_beta)

lemma step_cache:
  assumes "cache_ok 50 (tweetCache (globals sys))"
  shows "cache_ok 50 (tweetCache (globals (step e sys)))"
proof (cases e)
  case (OnMessage m pg)
  then show ?thesis
    using assms by (simp add: onMessage_cache)
next
  case (CallRunAutomation pg)
  then show ?thesis
    using assms runAutomation_begin_cache [of pg "globals sys"]
    by (cases "runAutomation_begin pg (globals sys)") (auto split: option.splits)
next
  case (ResumeCycle k pg)
  then show ?thesis
    using assms by (simp add: runAutomation_resume_cache)
next
  case (CallProcessTweetsQuickly pg)
  then show ?thesis
    using assms processTweetsQuickly_cache [of pg "globals sys"]
    by (cases "processTweetsQuickly pg (globals sys)") (auto split: option.splits)
next
  case (ResumeDrain k pg)
  then show ?thesis
    using assms drain_resume_cache [of "globals sys" pg "drains sys ! k"]
    by (cases "drain_resume pg (drains sys ! k) (globals sys)") (auto split: option.splits)
qed

lemma exec_cache:
  "cache_ok 50 (tweetCache (globals sys)) \<Longrightarrow> cache_ok 50 (tweetCache (globals (exec evs sys)))"
  by (induction evs arbitrary: sys) (simp_all add: step_cache)

lemma init_cache: "cache_ok 50 (tweetCache (globals (init_system stored)))"
  by (simp add: init_system_def initialize_def initial_state_def startBackgroundMode_def
      toggleAutomation_def startAutomationFast_def cache_ok_def Let_def)

lemma reachable_tweetCache_bounded:
  "map_size (tweetCache (globals (exec evs (init_system stored)))) \<le> 50"
  using exec_cache [OF init_cache, of evs stored] by (simp add: cache_ok_def map_size_def)

lemma cache_run_snoc: "cache_run cap (ops @ [(k, v)]) = cache_insert cap k v (cache_run cap ops)"
  by (simp add: cache_run_def)

lemma apiCache_store_run:
  "apiCache_store prompt r (cache_run 100 ops) = cache_run 100 (ops @ [(cacheKey prompt, r)])"
  by (simp add: apiCache_store_def cache_run_snoc)

text \<open>
  Fifty cycles that fill the text cache: after the first \<open>n\<close> cycles of \<open>fill_schedule\<close> the
  cache holds the texts of the first \<open>n\<close> tweets, oldest first.
\<close>

lemma tweet_no_id [simp]: "getTweetId (tweet_no i) = getTweetId (tweet_no j) \<longleftrightarrow> i = j"
  by (simp add: tweet_no_def getTweetId_def)

lemma trim_hello: "trim ''  hello world '' = ''hello world''"
  by code_simp

lemma texts_of_fresh: "map_get (getTweetId (tweet_no n)) (texts_of n) = None"
  by (auto simp: map_get_def texts_of_def map_of_eq_None_iff image_iff)

lemma texts_of_insert:
  "n < 50 \<Longrightarrow>
   cache_insert 50 (getTweetId (tweet_no n)) ''hello world'' (texts_of n) = texts_of (Suc n)"
proof -
  assume n: "n < 50"
  have "getTweetId (tweet_no n) \<notin> set (map fst (texts_of n))"
    by (auto simp: texts_of_def image_iff)
  then show ?thesis
    using n cache_insert_fresh_below [of "getTweetId (tweet_no n)" "texts_of n" 50 "''hello world''"]
    by (simp add: texts_of_def)
qed

lemma fill_begin:
  assumes "fill_ok n sys"
  shows "step (CallRunAutomation (page_no n)) sys =
           sys\<lparr>globals := (globals sys)\<lparr>isRunning := True, totalTweets := 1\<rparr>,
               cycles := [AwaitEngage (tweet_no n)]\<rparr>"
proof -
  have "getTweetId (tweet_no n) \<notin> processedTweets (globals sys)"
    using assms by (auto simp: fill_ok_def)
  then show ?thesis
    using assms
    by (simp add: fill_ok_def runAutomation_begin_def cycle_try_def page_no_def pageA_def
        tweet_no_def tweetA_def Let_def)
qed

lemma fill_engage:
  assumes "settings s = Some user_settings" and "tweetCache s = texts_of n" and "n < 50"
  shows "tweetCache (snd (engageWithTweetFast (page_no n) (tweet_no n) (getTweetId (tweet_no n)) s))
           = texts_of (Suc n)
         \<and> processedTweets (snd (engageWithTweetFast (page_no n) (tweet_no n) (getTweetId (tweet_no n)) s))
           = insert (getTweetId (tweet_no n)) (processedTweets s)"
proof -
  have get: "getTweetTextFast (tweet_no n) s' =
          (''hello world'', s'\<lparr>tweetCache := texts_of (Suc n)\<rparr>)"
    if "tweetCache s' = texts_of n" for s'
    using that texts_of_fresh [of n] texts_of_insert [OF assms(3)]
    by (simp add: getTweetTextFast_def Let_def trim_hello tweet_no_def)
  show ?thesis
    using assms(1,2)
    by (simp add: engageWithTweetFast_def likePostFast_def commentOnPostFast_def get
        shouldCommentFast_def updateLastActionTime_def Let_def page_no_def pageA_def
        user_settings_def)
       (simp add: tweet_no_def tweetA_def)
qed


lemma fill_step:
  assumes "fill_ok n sys" and "n < 50"
  shows "fill_ok (Suc n) (exec [CallRunAutomation (page_no n), ResumeCycle 0 (page_no n)] sys)"
proof -
  let ?g = "(globals sys)\<lparr>isRunning := True, totalTweets := 1\<rparr>"
  have g: "settings ?g = Some user_settings" "tweetCache ?g = texts_of n"
    using assms(1) by (simp_all add: fill_ok_def)
  note eng = fill_engage [OF g assms(2)]
  have ctl: "same_controls ?g
       (snd (engageWithTweetFast (page_no n) (tweet_no n) (getTweetId (tweet_no n)) ?g))"
    by (rule engageWithTweetFast_controls)
  have set: "insert (getTweetId (tweet_no n)) ((\<lambda>i. getTweetId (tweet_no i)) ` {..<n})
       = (\<lambda>i. getTweetId (tweet_no i)) ` {..<Suc n}"
    by (simp add: lessThan_Suc)
  have run: "exec [CallRunAutomation (page_no n), ResumeCycle 0 (page_no n)] sys =
       step (ResumeCycle 0 (page_no n))
         (sys\<lparr>globals := ?g, cycles := [AwaitEngage (tweet_no n)]\<rparr>)"
    by (simp only: exec.simps fill_begin [OF assms(1)])
  show ?thesis
    unfolding run using assms(1) eng ctl set
    by (simp add: fill_ok_def runAutomation_resume_def cycle_finally_def remove_nth_def
        same_controls_def)
qed

lemma fill_schedule_Suc:
  "fill_schedule (Suc n) =
     fill_schedule n @ [CallRunAutomation (page_no n), ResumeCycle 0 (page_no n)]"
  by (simp add: fill_schedule_def)

lemma fill_init: "fill_ok 0 (init_system (Some user_settings))"
  by (simp add: init_eval ready_eval fill_ok_def texts_of_def)

lemma fill_exec:
  "n \<le> 50 \<Longrightarrow> fill_ok n (exec (fill_schedule n) (init_system (Some user_settings)))"
proof (induction n)
  case 0
  then show ?case by (simp add: fill_schedule_def fill_init)
next
  case (Suc n)
  then show ?case
    using fill_step [of n "exec (fill_schedule n) (init_system (Some user_settings))"]
    by (simp add: fill_schedule_Suc exec_append)
qed

lemma filled_cache:
  "n \<le> 50 \<Longrightarrow>
   tweetCache (globals (exec (fill_schedule n) (init_system (Some user_settings)))) = texts_of n"
  using fill_exec [of n] by (simp add: fill_ok_def)


lemma map_get_None_has: "map_get k m = None \<longleftrightarrow> \<not> map_has k m"
  by (simp add: map_get_def map_has_def map_of_eq_None_iff)

text \<open>Caches whose keys are known to differ.\<close>

lemma cache_run_id:
  "distinct (map fst ops) \<Longrightarrow> length ops \<le> cap \<Longrightarrow> cache_run cap ops = ops"
proof (induction ops rule: rev_induct)
  case Nil
  then show ?case by (simp add: cache_run_def)
next
  case (snoc x xs)
  obtain k v where x: "x = (k, v)" by (cases x)
  have "cache_run cap xs = xs"
    using snoc by simp
  then show ?case
    using snoc.prems cache_insert_fresh_below [of k xs cap v]
    by (simp add: x cache_run_snoc)
qed

lemma map_has_append: "map_has k (xs @ ys) \<longleftrightarrow> map_has k xs \<or> map_has k ys"
  by (auto simp: map_has_def)

lemma map_has_range:
  "inj_on f (insert i {a..<b}) \<Longrightarrow>
   map_has (f i) (map (\<lambda>j. (f j, c)) [a..<b]) \<longleftrightarrow> a \<le> i \<and> i < b"
  by (auto simp: map_has_def image_iff inj_on_def)

lemma api_key:
  "i < 100 \<Longrightarrow>
   cacheKey (api_prompt i) = replicate (Suc (i div 2)) (if even i then CHR ''a'' else CHR ''b'')"
proof -
  assume "i < 100"
  then have "min 50 (Suc (i div 2)) = Suc (i div 2)" by simp
  moreover have "toLowerCase_char (CHR ''A'') = CHR ''a''" "toLowerCase_char (CHR ''B'') = CHR ''b''"
    by code_simp+
  ultimately show ?thesis
    unfolding cacheKey_def toLowerCase_def api_prompt_def
    by (simp only: map_replicate take_replicate if_distrib [of toLowerCase_char] if_True if_False)
qed


lemma api_key_inj: "inj_on (\<lambda>i. cacheKey (api_prompt i)) {..<100}"
proof (rule inj_onI)
  fix i j :: nat
  assume "i \<in> {..<100}" "j \<in> {..<100}" "cacheKey (api_prompt i) = cacheKey (api_prompt j)"
  then have "i div 2 = j div 2 \<and> even i = even j"
    by (simp add: api_key split: if_splits)
  then show "i = j"
    by presburger
qed

lemma api_key_fresh: "i < 100 \<Longrightarrow> cacheKey (api_prompt i) \<noteq> ''fresh prompt''"
  by (simp add: api_key)

lemma fresh_key: "cacheKey ''Fresh PROMPT'' = ''fresh prompt''"
  by code_simp

lemma api_history_run: "cache_run 100 api_history = api_history"
proof (rule cache_run_id)
  have "inj_on (\<lambda>i. cacheKey (api_prompt i)) (set [0..<100])"
    using api_key_inj by (simp add: lessThan_atLeast0)
  then show "distinct (map fst api_history)"
    by (simp add: api_history_def distinct_map comp_def)
  show "length api_history \<le> 100"
    by (simp add: api_history_def)
qed

lemma api_history_has:
  assumes "i < 100"
  shows "map_has (cacheKey (api_prompt i))
     (map (\<lambda>i. (cacheKey (api_prompt i), ''ok'')) [a..<100]) \<longleftrightarrow> a \<le> i"
proof -
  have "insert i {a..<100} \<subseteq> {..<100}"
    using assms by auto
  then have "inj_on (\<lambda>i. cacheKey (api_prompt i)) (insert i {a..<100})"
    by (rule inj_on_subset [OF api_key_inj])
  then show ?thesis
    using assms map_has_range [of "\<lambda>i. cacheKey (api_prompt i)" i a 100 "''ok''"] by simp
qed

lemma api_history_tl:
  "tl api_history = map (\<lambda>i. (cacheKey (api_prompt i), ''ok'')) [1..<100]"
  unfolding api_history_def by (simp only: map_tl [symmetric] tl_upt) simp

lemma api_history_fresh:
  "\<not> map_has ''fresh prompt'' (map (\<lambda>i. (cacheKey (api_prompt i), ''ok'')) [a..<100])"
proof
  assume "map_has ''fresh prompt'' (map (\<lambda>i. (cacheKey (api_prompt i), ''ok'')) [a..<100])"
  then obtain i where "i < 100" "cacheKey (api_prompt i) = ''fresh prompt''"
    by (auto simp: map_has_def image_iff)
  then show False
    using api_key_fresh by blast
qed

lemma texts_of_has:
  "map_has (getTweetId (tweet_no i))
     (map (\<lambda>i. (getTweetId (tweet_no i), ''hello world'')) [a..<b]) \<longleftrightarrow> a \<le> i \<and> i < b"
proof -
  have "inj_on (\<lambda>i. getTweetId (tweet_no i)) (insert i {a..<b})"
    by (simp add: inj_on_def)
  then show ?thesis
    using map_has_range [of "\<lambda>i. getTweetId (tweet_no i)" i a b "''hello world''"] by simp
qed

lemma texts_of_tl:
  "tl (texts_of n) = map (\<lambda>i. (getTweetId (tweet_no i), ''hello world'')) [1..<n]"
  unfolding texts_of_def by (simp only: map_tl [symmetric] tl_upt) simp

lemma texts_of_get:
  "i < n \<Longrightarrow> map_get (getTweetId (tweet_no i)) (texts_of n) = Some ''hello world''"
proof -
  assume "i < n"
  then have "(getTweetId (tweet_no i), ''hello world'') \<in> set (texts_of n)"
    by (auto simp: texts_of_def)
  moreover have "distinct (map fst (texts_of n))"
    by (simp add: texts_of_def distinct_map comp_def inj_on_def)
  ultimately show ?thesis
    by (simp add: map_get_def)
qed


text \<open>
  Claim C8. Bounded cache with insertion-order eviction. Let \<open>m\<close> be the cache after any
  sequence of insertions into the empty cache, with capacity \<open>cap\<close> (50 for \<open>tweetCache\<close>,
  100 for \<open>apiCache\<close>). Then \<open>m\<close> holds at most \<open>cap\<close> entries, and so does the cache after
  one more insertion. Inserting a key that is not in a full cache evicts exactly the oldest
  entry: the result is the other entries, in their order, followed by the new one. Any other
  insertion (the key is present, or the cache is not full) is a plain \<^verbatim>\<open>Map.set\<close> and every
  key of \<open>m\<close> is still there.

  In the optimized content script the text cache is a Map of at most 50 entries in every
  state the event system reaches. getTweetTextFast, called in any state \<open>s\<close>: when the
  tweet's id is in the cache it returns the cached text and changes nothing; when it is not
  and the tweet has no text element it returns the empty string and changes nothing; when it
  is not and there is a text element it returns the trimmed text and makes exactly that
  insertion, which on a full cache drops the oldest entry and appends the new one, and on a
  cache below 50 entries only appends. In the background script the caching step of
  processApiRequest is an insertion with capacity 100 under the prompt's key, and on a full
  cache that does not hold the key it drops the oldest entry and appends the new one.
\<close>

theorem reply_cache_bounded_insertion_order:
  "map_size (cache_run cap ops) \<le> cap
   \<and> map_size (cache_insert cap k v (cache_run cap ops)) \<le> cap
   \<and> (\<not> map_has k (cache_run cap ops) \<and> map_size (cache_run cap ops) = cap \<and> 0 < cap \<longrightarrow>
        cache_insert cap k v (cache_run cap ops) = tl (cache_run cap ops) @ [(k, v)])
   \<and> (map_has k (cache_run cap ops) \<or> map_size (cache_run cap ops) < cap \<longrightarrow>
        cache_insert cap k v (cache_run cap ops) = map_set k v (cache_run cap ops)
        \<and> (\<forall>k'. map_has k' (cache_run cap ops) \<longrightarrow>
                  map_has k' (cache_insert cap k v (cache_run cap ops))))
   \<and> map_size (tweetCache (globals (exec evs (init_system stored)))) \<le> 50
   \<and> apiCache_store prompt reply (cache_run 100 replies)
       = cache_run 100 (replies @ [(cacheKey prompt, reply)])
   \<and> cache_ok 50 (tweetCache (globals (exec evs (init_system stored))))
   \<and> (map_get (getTweetId t) (tweetCache s) = Some cached \<longrightarrow>
        getTweetTextFast t s = (cached, s))
   \<and> (map_get (getTweetId t) (tweetCache s) = None \<and> tweetText t = None \<longrightarrow>
        getTweetTextFast t s = ([], s))
   \<and> (map_get (getTweetId t) (tweetCache s) = None \<and> tweetText t = Some content \<longrightarrow>
        getTweetTextFast t s =
          (trim content,
           s\<lparr>tweetCache := cache_insert 50 (getTweetId t) (trim content) (tweetCache s)\<rparr>))
   \<and> (cache_ok 50 (tweetCache s) \<and> map_get (getTweetId t) (tweetCache s) = None
        \<and> tweetText t = Some content \<and> map_size (tweetCache s) = 50 \<longrightarrow>
        tweetCache (snd (getTweetTextFast t s)) =
          tl (tweetCache s) @ [(getTweetId t, trim content)])
   \<and> (cache_ok 50 (tweetCache s) \<and> map_get (getTweetId t) (tweetCache s) = None
        \<and> tweetText t = Some content \<and> map_size (tweetCache s) < 50 \<longrightarrow>
        tweetCache (snd (getTweetTextFast t s)) =
          tweetCache s @ [(getTweetId t, trim content)])
   \<and> (\<not> map_has (cacheKey prompt) (cache_run 100 replies)
        \<and> map_size (cache_run 100 replies) = 100 \<longrightarrow>
        apiCache_store prompt reply (cache_run 100 replies) =
          tl (cache_run 100 replies) @ [(cacheKey prompt, reply)])"
proof -
  have inv: "distinct (map fst (cache_run c os))" "length (cache_run c os) \<le> c"
    for c and os :: "('x \<times> 'y) list"
    using cache_run_invariant [of c os] by simp_all
  define m where "m = cache_run cap ops"
  have a: "map_size m \<le> cap"
    using inv [of cap ops] by (simp add: map_size_def m_def)
  have b: "map_size (cache_insert cap k v m) \<le> cap"
    using cache_insert_invariant [of m cap k v] inv [of cap ops] by (simp add: map_size_def m_def)
  have c: "cache_insert c' k' v' (cache_run c' os) = tl (cache_run c' os) @ [(k', v')]"
    if "\<not> map_has k' (cache_run c' os)" "map_size (cache_run c' os) = c'" "0 < c'"
    for c' k' v' and os :: "('x \<times> 'y) list"
  proof -
    have "cache_run c' os \<noteq> []" using that by (auto simp: map_size_def)
    then show ?thesis
      using that cache_insert_full [of k' "cache_run c' os" c' v'] inv(1) [of c' os]
      by (simp add: map_has_def map_size_def)
  qed
  have d: "cache_insert cap k v m = map_set k v m"
    if "map_has k m \<or> map_size m < cap"
  proof (cases "map_has k m")
    case True
    then show ?thesis
      using inv(2) [of cap ops] cache_insert_present [of k m cap v]
      by (simp add: map_has_def map_set_def m_def)
  next
    case False
    then have "map_size m < cap" using that by simp
    then show ?thesis
      using False cache_insert_fresh_below [of k m cap v] update_fresh [of k m v]
      by (simp add: map_has_def map_set_def map_size_def)
  qed
  have e: "map_has k' (cache_insert cap k v m)"
    if "map_has k m \<or> map_size m < cap" "map_has k' m" for k'
    using that(2) dom_update [of k v m] by (auto simp: d [OF that(1)] map_has_def map_set_def)
  have f: "cache_ok 50 (tweetCache (globals (exec evs (init_system stored))))"
    by (rule exec_cache [OF init_cache])
  have g1: "getTweetTextFast t s = (cached, s)"
    if "map_get (getTweetId t) (tweetCache s) = Some cached"
    using that by (simp add: getTweetTextFast_def Let_def)
  have g2: "getTweetTextFast t s = ([], s)"
    if "map_get (getTweetId t) (tweetCache s) = None" "tweetText t = None"
    using that by (simp add: getTweetTextFast_def Let_def)
  have g3: "getTweetTextFast t s =
          (trim content,
           s\<lparr>tweetCache := cache_insert 50 (getTweetId t) (trim content) (tweetCache s)\<rparr>)"
    if "map_get (getTweetId t) (tweetCache s) = None" "tweetText t = Some content"
    using that by (simp add: getTweetTextFast_def Let_def)
  have g4: "tweetCache (snd (getTweetTextFast t s)) =
          tl (tweetCache s) @ [(getTweetId t, trim content)]"
    if "cache_ok 50 (tweetCache s)" "map_get (getTweetId t) (tweetCache s) = None"
      "tweetText t = Some content" "map_size (tweetCache s) = 50"
  proof -
    have "tweetCache s \<noteq> []" using that(4) by (auto simp: map_size_def)
    then show ?thesis
      using that cache_insert_full [of "getTweetId t" "tweetCache s" 50 "trim content"]
      by (simp add: g3 cache_ok_def map_size_def map_get_None_has map_has_def)
  qed
  have g5: "tweetCache (snd (getTweetTextFast t s)) =
          tweetCache s @ [(getTweetId t, trim content)]"
    if "cache_ok 50 (tweetCache s)" "map_get (getTweetId t) (tweetCache s) = None"
      "tweetText t = Some content" "map_size (tweetCache s) < 50"
    using that cache_insert_fresh_below [of "getTweetId t" "tweetCache s" 50 "trim content"]
    by (simp add: g3 map_size_def map_get_None_has map_has_def)
  have h: "apiCache_store prompt reply (cache_run 100 replies) =
          tl (cache_run 100 replies) @ [(cacheKey prompt, reply)]"
    if "\<not> map_has (cacheKey prompt) (cache_run 100 replies)"
      "map_size (cache_run 100 replies) = 100"
    using c [OF that] by (simp add: apiCache_store_def)
  show ?thesis
    unfolding m_def [symmetric]
    apply (intro conjI impI allI)
    subgoal by (rule a)
    subgoal by (rule b)
    subgoal using c [of k cap ops v] by (simp add: m_def)
    subgoal using d by blast
    subgoal using e by blast
    subgoal by (rule reachable_tweetCache_bounded)
    subgoal by (rule apiCache_store_run)
    subgoal by (rule f)
    subgoal using g1 by blast
    subgoal using g2 by blast
    subgoal using g3 by blast
    subgoal using g4 by blast
    subgoal using g5 by blast
    subgoal using h by blast
    done
qed



text \<open>
  The theorem at a full cache of capacity 50: the 51st distinct key evicts key 0 and keeps
  keys 1 to 50; setting key 0 again evicts nothing. In the script: after the fifty cycles of
  \<open>fill_schedule 50\<close> the text cache is full; reading the text of a 51st tweet returns it
  trimmed, evicts the first tweet's entry and keeps the other fifty; reading the first
  tweet again returns the cached text and changes nothing, and so does a tweet without a text
  element; after two cycles the third text is only appended. In the background script: after
  a hundred answers the reply cache is full, a new prompt is stored under its lower-cased
  key, the first prompt's entry is evicted and the other hundred are kept.
\<close>

theorem reply_cache_bounded_insertion_order_witness:
  "\<not> map_has 50 (cache_run 50 ops50) \<and> map_size (cache_run 50 ops50) = 50 \<and> (0::nat) < 50
   \<and> cache_insert 50 50 50 (cache_run 50 ops50) = tl (cache_run 50 ops50) @ [(50, 50)]
   \<and> \<not> map_has 0 (cache_insert 50 50 50 (cache_run 50 ops50))
   \<and> list_all (\<lambda>i. map_has i (cache_insert 50 50 50 (cache_run 50 ops50))) [1..<51]
   \<and> map_has 0 (cache_run 50 ops50)
   \<and> cache_insert 50 0 7 (cache_run 50 ops50) = map_set 0 7 (cache_run 50 ops50)
   \<and> map_has 49 (cache_insert 50 0 7 (cache_run 50 ops50))
   \<and> cache_ok 50 (tweetCache (globals (exec (fill_schedule 50) (init_system (Some user_settings)))))
   \<and> map_size (tweetCache (globals (exec (fill_schedule 50) (init_system (Some user_settings))))) = 50
   \<and> map_get (getTweetId (tweet_no 50))
        (tweetCache (globals (exec (fill_schedule 50) (init_system (Some user_settings))))) = None
   \<and> tweetText (tweet_no 50) = Some ''  hello world ''
   \<and> fst (getTweetTextFast (tweet_no 50)
             (globals (exec (fill_schedule 50) (init_system (Some user_settings))))) = ''hello world''
   \<and> tweetCache (snd (getTweetTextFast (tweet_no 50)
             (globals (exec (fill_schedule 50) (init_system (Some user_settings))))))
       = tl (tweetCache (globals (exec (fill_schedule 50) (init_system (Some user_settings)))))
         @ [(getTweetId (tweet_no 50), ''hello world'')]
   \<and> \<not> map_has (getTweetId (tweet_no 0))
         (tweetCache (snd (getTweetTextFast (tweet_no 50)
             (globals (exec (fill_schedule 50) (init_system (Some user_settings)))))))
   \<and> list_all (\<lambda>i. map_has (getTweetId (tweet_no i))
         (tweetCache (snd (getTweetTextFast (tweet_no 50)
             (globals (exec (fill_schedule 50) (init_system (Some user_settings))))))))
        [1..<51]
   \<and> map_get (getTweetId (tweet_no 0))
        (tweetCache (globals (exec (fill_schedule 50) (init_system (Some user_settings)))))
       = Some ''hello world''
   \<and> getTweetTextFast (tweet_no 0)
        (globals (exec (fill_schedule 50) (init_system (Some user_settings))))
       = (''hello world'', globals (exec (fill_schedule 50) (init_system (Some user_settings))))
   \<and> tweetText ((tweet_no 50)\<lparr>tweetText := None\<rparr>) = None
   \<and> getTweetTextFast ((tweet_no 50)\<lparr>tweetText := None\<rparr>)
        (globals (exec (fill_schedule 50) (init_system (Some user_settings))))
       = ([], globals (exec (fill_schedule 50) (init_system (Some user_settings))))
   \<and> map_size (tweetCache (globals (exec (fill_schedule 2) (init_system (Some user_settings))))) < 50
   \<and> tweetCache (snd (getTweetTextFast (tweet_no 2)
             (globals (exec (fill_schedule 2) (init_system (Some user_settings))))))
       = tweetCache (globals (exec (fill_schedule 2) (init_system (Some user_settings))))
         @ [(getTweetId (tweet_no 2), ''hello world'')]
   \<and> \<not> map_has (cacheKey ''Fresh PROMPT'') (cache_run 100 api_history)
   \<and> map_size (cache_run 100 api_history) = 100
   \<and> apiCache_store ''Fresh PROMPT'' ''thanks'' (cache_run 100 api_history)
       = tl (cache_run 100 api_history) @ [(''fresh prompt'', ''thanks'')]
   \<and> map_has (cacheKey (api_prompt 0)) (cache_run 100 api_history)
   \<and> \<not> map_has (cacheKey (api_prompt 0))
          (apiCache_store ''Fresh PROMPT'' ''thanks'' (cache_run 100 api_history))
   \<and> list_all (\<lambda>i. map_has (cacheKey (api_prompt i))
          (apiCache_store ''Fresh PROMPT'' ''thanks'' (cache_run 100 api_history)))
        [1..<100]
   \<and> map_has (cacheKey ''Fresh PROMPT'')
          (apiCache_store ''Fresh PROMPT'' ''thanks'' (cache_run 100 api_history))"
proof -
  let ?G = "globals (exec (fill_schedule 50) (init_system (Some user_settings)))"
  let ?G2 = "globals (exec (fill_schedule 2) (init_system (Some user_settings)))"
  have h1: "\<not> map_has 50 (cache_run 50 ops50)" by code_simp
  have h2: "map_size (cache_run 50 ops50) = 50" by code_simp
  have h3: "map_has 0 (cache_run 50 ops50)" by code_simp
  have h4: "map_has 49 (cache_run 50 ops50)" by code_simp
  have e1: "\<not> map_has 0 (cache_insert 50 50 50 (cache_run 50 ops50))" by code_simp
  have e2: "list_all (\<lambda>i. map_has i (cache_insert 50 50 50 (cache_run 50 ops50))) [1..<51]"
    by code_simp
  have pos: "(0::nat) < 50" by simp
  note full = reply_cache_bounded_insertion_order
    [where cap = 50 and ops = ops50 and k = 50 and v = 50 and evs = "fill_schedule 50"
       and stored = "Some user_settings" and prompt = "''Fresh PROMPT''" and reply = "''thanks''"
       and replies = api_history and t = "tweet_no 50" and s = ?G
       and cached = "''hello world''" and content = "''  hello world ''"]
  note again = reply_cache_bounded_insertion_order
    [where cap = 50 and ops = ops50 and k = 0 and v = 7 and evs = "fill_schedule 50"
       and stored = "Some user_settings" and prompt = "''Fresh PROMPT''" and reply = "''thanks''"
       and replies = api_history and t = "tweet_no 0" and s = ?G
       and cached = "''hello world''" and content = "''  hello world ''"]
  note notext = reply_cache_bounded_insertion_order
    [where cap = 50 and ops = ops50 and k = 0 and v = 7 and evs = "fill_schedule 50"
       and stored = "Some user_settings" and prompt = "''Fresh PROMPT''" and reply = "''thanks''"
       and replies = api_history and t = "(tweet_no 50)\<lparr>tweetText := None\<rparr>" and s = ?G
       and cached = "''hello world''" and content = "''  hello world ''"]
  note below = reply_cache_bounded_insertion_order
    [where cap = 50 and ops = ops50 and k = 0 and v = 7 and evs = "fill_schedule 2"
       and stored = "Some user_settings" and prompt = "''Fresh PROMPT''" and reply = "''thanks''"
       and replies = api_history and t = "tweet_no 2" and s = ?G2
       and cached = "''hello world''" and content = "''  hello world ''"]
  have c1: "cache_insert 50 50 50 (cache_run 50 ops50) = tl (cache_run 50 ops50) @ [(50, 50)]"
    using full h1 h2 pos by blast
  have c2: "cache_insert 50 0 7 (cache_run 50 ops50) = map_set 0 7 (cache_run 50 ops50)"
    using again h3 by blast
  have c3: "map_has 49 (cache_insert 50 0 7 (cache_run 50 ops50))"
    using again h3 h4 by blast
  have G: "tweetCache ?G = texts_of 50"
    by (rule filled_cache) simp
  have G2: "tweetCache ?G2 = texts_of 2"
    by (rule filled_cache) simp
  have ok: "cache_ok 50 (tweetCache ?G)"
    using full by blast
  have ok2: "cache_ok 50 (tweetCache ?G2)"
    using below by blast
  have size: "map_size (tweetCache ?G) = 50"
    by (simp add: G texts_of_def map_size_def)
  have fresh: "map_get (getTweetId (tweet_no 50)) (tweetCache ?G) = None"
    by (simp add: G texts_of_fresh)
  have content50: "tweetText (tweet_no 50) = Some ''  hello world ''"
    by (simp add: tweet_no_def)
  have t1: "getTweetTextFast (tweet_no 50) ?G =
      (trim ''  hello world '',
       ?G\<lparr>tweetCache := cache_insert 50 (getTweetId (tweet_no 50)) (trim ''  hello world '')
                           (tweetCache ?G)\<rparr>)"
    using full fresh content50 by blast
  have t2: "fst (getTweetTextFast (tweet_no 50) ?G) = ''hello world''"
    by (simp add: t1 trim_hello)
  have t3: "tweetCache (snd (getTweetTextFast (tweet_no 50) ?G)) =
      tl (tweetCache ?G) @ [(getTweetId (tweet_no 50), trim ''  hello world '')]"
    using full ok fresh content50 size by blast
  have t4: "tweetCache (snd (getTweetTextFast (tweet_no 50) ?G)) =
      tl (tweetCache ?G) @ [(getTweetId (tweet_no 50), ''hello world'')]"
    using t3 by (simp only: trim_hello)
  have t5: "\<not> map_has (getTweetId (tweet_no 0))
      (tweetCache (snd (getTweetTextFast (tweet_no 50) ?G)))"
    unfolding t4 G texts_of_tl by (simp add: map_has_append texts_of_has) (simp add: map_has_def)
  have t6: "list_all (\<lambda>i. map_has (getTweetId (tweet_no i))
      (tweetCache (snd (getTweetTextFast (tweet_no 50) ?G)))) [1..<51]"
    unfolding t4 G texts_of_tl list_all_iff
    by (auto simp: map_has_append texts_of_has) (simp add: map_has_def)
  have hit: "map_get (getTweetId (tweet_no 0)) (tweetCache ?G) = Some ''hello world''"
    unfolding G by (rule texts_of_get) simp
  have t7: "getTweetTextFast (tweet_no 0) ?G = (''hello world'', ?G)"
    using again hit by blast
  have nt: "tweetText ((tweet_no 50)\<lparr>tweetText := None\<rparr>) = None"
    by simp
  have fresh': "map_get (getTweetId ((tweet_no 50)\<lparr>tweetText := None\<rparr>)) (tweetCache ?G) = None"
    using fresh by (simp add: getTweetId_def)
  have t8: "getTweetTextFast ((tweet_no 50)\<lparr>tweetText := None\<rparr>) ?G = ([], ?G)"
    using notext fresh' nt by blast
  have size2: "map_size (tweetCache ?G2) < 50"
    by (simp add: G2 texts_of_def map_size_def)
  have fresh2: "map_get (getTweetId (tweet_no 2)) (tweetCache ?G2) = None"
    by (simp add: G2 texts_of_fresh)
  have content2: "tweetText (tweet_no 2) = Some ''  hello world ''"
    by (simp add: tweet_no_def)
  have t9: "tweetCache (snd (getTweetTextFast (tweet_no 2) ?G2)) =
      tweetCache ?G2 @ [(getTweetId (tweet_no 2), trim ''  hello world '')]"
    using below ok2 fresh2 content2 size2 by blast
  have t10: "tweetCache (snd (getTweetTextFast (tweet_no 2) ?G2)) =
      tweetCache ?G2 @ [(getTweetId (tweet_no 2), ''hello world'')]"
    using t9 by (simp only: trim_hello)
  have b1: "\<not> map_has (cacheKey ''Fresh PROMPT'') (cache_run 100 api_history)"
    unfolding api_history_run fresh_key unfolding api_history_def by (rule api_history_fresh)
  have b2: "map_size (cache_run 100 api_history) = 100"
    unfolding api_history_run by (simp add: api_history_def map_size_def)
  have b3: "map_has (cacheKey (api_prompt 0)) (cache_run 100 api_history)"
    unfolding api_history_run unfolding api_history_def by (simp add: api_history_has)
  have a1: "apiCache_store ''Fresh PROMPT'' ''thanks'' (cache_run 100 api_history) =
      tl (cache_run 100 api_history) @ [(cacheKey ''Fresh PROMPT'', ''thanks'')]"
    using full b1 b2 by blast
  have a2: "apiCache_store ''Fresh PROMPT'' ''thanks'' (cache_run 100 api_history) =
      tl (cache_run 100 api_history) @ [(''fresh prompt'', ''thanks'')]"
    using a1 by (simp only: fresh_key)
  have a2r: "apiCache_store ''Fresh PROMPT'' ''thanks'' (cache_run 100 api_history) =
      map (\<lambda>i. (cacheKey (api_prompt i), ''ok'')) [1..<100] @ [(''fresh prompt'', ''thanks'')]"
    using a2 by (simp only: api_history_run api_history_tl)
  have a3: "\<not> map_has (cacheKey (api_prompt 0))
      (apiCache_store ''Fresh PROMPT'' ''thanks'' (cache_run 100 api_history))"
    unfolding a2r
    using api_key_fresh [of 0] by (simp add: map_has_append api_history_has) (simp add: map_has_def)
  have a4: "list_all (\<lambda>i. map_has (cacheKey (api_prompt i))
      (apiCache_store ''Fresh PROMPT'' ''thanks'' (cache_run 100 api_history))) [1..<100]"
    unfolding a2r list_all_iff
    by (auto simp: map_has_append api_history_has)
  have a5: "map_has (cacheKey ''Fresh PROMPT'')
      (apiCache_store ''Fresh PROMPT'' ''thanks'' (cache_run 100 api_history))"
    unfolding a2r fresh_key by (simp add: map_has_append) (simp add: map_has_def)
  show ?thesis
    apply (intro conjI)
    subgoal by (rule h1)
    subgoal by (rule h2)
    subgoal by (rule pos)
    subgoal by (rule c1)
    subgoal by (rule e1)
    subgoal by (rule e2)
    subgoal by (rule h3)
    subgoal by (rule c2)
    subgoal by (rule c3)
    subgoal by (rule ok)
    subgoal by (rule size)
    subgoal by (rule fresh)
    subgoal by (rule content50)
    subgoal by (rule t2)
    subgoal by (rule t4)
    subgoal by (rule t5)
    subgoal by (rule t6)
    subgoal by (rule hit)
    subgoal by (rule t7)
    subgoal by (rule nt)
    subgoal by (rule t8)
    subgoal by (rule size2)
    subgoal by (rule t10)
    subgoal by (rule b1)
    subgoal by (rule b2)
    subgoal by (rule a2)
    subgoal by (rule b3)
    subgoal by (rule a3)
    subgoal by (rule a4)
    subgoal by (rule a5)
    done
qed

end
